theory Spec2Isabelle
  imports Main "HOL-Library.Multiset" "HOL-Library.Word"
begin

unbundle bit_operations_syntax

section \<open>Strings, bytes and hex values\<close>

text \<open>
  The wallet SDK passes addresses, commitments and nullifiers around as \<open>0x\<close>-prefixed
  hexadecimal strings (viem's \<open>Address\<close> and \<open>Hex\<close>).  They are compared after
  \<open>toLowerCase()\<close>; on the ASCII characters such strings are made of, that maps
  \<open>A\<close>..\<open>Z\<close> to \<open>a\<close>..\<open>z\<close> and leaves every other character alone.
\<close>

type_synonym Hex = string
type_synonym Address = string
type_synonym byte = "8 word"

definition toLowerChar :: "char \<Rightarrow> char" where
  "toLowerChar c =
     (let k = (of_char c :: nat) in if 65 \<le> k \<and> k \<le> 90 then char_of (k + 32) else c)"

definition toLowerCase :: "string \<Rightarrow> string" where
  "toLowerCase s = map toLowerChar s"

text \<open>
  viem's \<open>bytesToHex\<close>: \<open>0x\<close> followed by two lower-case hexadecimal digits for each
  byte of the array.
\<close>

definition hexDigit :: "nat \<Rightarrow> char" where
  "hexDigit d = ''0123456789abcdef'' ! (d mod 16)"

definition bytesToHex :: "byte list \<Rightarrow> Hex" where
  "bytesToHex bs = ''0x'' @ concat (map (\<lambda>b. [hexDigit (unat b div 16), hexDigit (unat b mod 16)]) bs)"

section \<open>Data of the wallet SDK\<close>

text \<open>
  Several interfaces of the SDK share field names; the fields of \<open>Note\<close>,
  \<open>WalletKeys\<close> and \<open>PrivacyWallet\<close> are declared last and are the ones written
  without a qualifier, the others are written \<open>Commitment.amount\<close>,
  \<open>AccountUpdatedEvent.blockNumber\<close> and so on.
\<close>

text \<open>\<open>Commitment\<close> (the result of \<open>createCommitment\<close>, handed to \<open>executeDeposit\<close>).\<close>

record Commitment =
  commitment :: Hex
  amount :: int
  blinding :: Hex

text \<open>\<open>StealthAddress\<close>; the source spells the second field \<open>ephmeralPublicKey\<close>.\<close>

record StealthAddress =
  address :: Address
  ephmeralPublicKey :: Hex
  viewTag :: nat

text \<open>\<open>AccountUpdatedEvent\<close> of the contract service.\<close>

record AccountUpdatedEvent =
  commitment :: Hex
  encryptedMemo :: Hex
  blockNumber :: int
  transactionHash :: Hex

text \<open>The result of \<open>MerkleTree.generateProof\<close>.\<close>

record MerkleProof =
  leaf :: Hex
  pathElements :: "Hex list"
  pathIndices :: "nat list"

text \<open>\<open>TransactionProofRequest\<close> and \<open>ProofResponse\<close> of the prover API.\<close>

record ProverInputNote =
  commitment :: Hex
  amount :: int
  blinding :: Hex
  leafIndex :: nat
  pathElements :: "Hex list"
  pathIndices :: "nat list"

record ProverOutputNote =
  amount :: int
  recipientPublicKey :: Hex

record TransactionProofRequest =
  inputNotes :: "ProverInputNote list"
  outputNotes :: "ProverOutputNote list"
  currentRoot :: Hex

record ProofResponse =
  publicInputs :: Hex
  proofBytes :: Hex
  success :: bool
  error :: "string option"

text \<open>One entry of the \<open>outputs\<close> argument of \<open>executeTransaction\<close>.\<close>

record TransactionOutput =
  amount :: int
  recipient :: StealthAddress

text \<open>
  \<open>interface Note\<close>: \<open>amount\<close> and \<open>blockNumber\<close> are \<open>bigint\<close> (unbounded, signed),
  \<open>leafIndex\<close> is the index of the commitment in the Merkle tree.
\<close>

record Note =
  commitment :: Hex
  amount :: int
  blinding :: Hex
  token :: Address
  leafIndex :: nat
  nullifier :: Hex
  spent :: bool
  blockNumber :: int

text \<open>\<open>WalletKeys\<close>: the account address and the two key pairs, as byte arrays.\<close>

record WalletKeys =
  address :: Address
  viewPrivateKey :: "byte list"
  viewPublicKey :: "byte list"
  spendPrivateKey :: "byte list"
  spendPublicKey :: "byte list"

text \<open>
  Modelled from the spec: the class \<open>MerkleTree\<close> (imported from \<open>./merkleTree\<close>) is
  not among the sources.  The spec describes it as an append-only ordered sequence of
  leaves: \<open>insertLeaf\<close> places the leaf at \<open>nextLeafIndex\<close> and increments it,
  \<open>findLeafIndex\<close> looks a commitment up and answers \<open>-1\<close> when it is absent.  The root
  and the inclusion proofs are functions of the leaf sequence; the wallet only forwards
  them to the prover, so they are parameters of the collaborators below.
\<close>

type_synonym MerkleTree = "Hex list"

definition nextLeafIndex :: "MerkleTree \<Rightarrow> nat" where
  "nextLeafIndex t = length t"

definition insertLeaf :: "MerkleTree \<Rightarrow> Hex \<Rightarrow> MerkleTree" where
  "insertLeaf t c = t @ [c]"

fun findLeafIndexFrom :: "int \<Rightarrow> MerkleTree \<Rightarrow> Hex \<Rightarrow> int" where
  "findLeafIndexFrom i [] c = -1"
| "findLeafIndexFrom i (l # ls) c = (if l = c then i else findLeafIndexFrom (i + 1) ls c)"

definition findLeafIndex :: "MerkleTree \<Rightarrow> Hex \<Rightarrow> int" where
  "findLeafIndex t c = findLeafIndexFrom 0 t c"

text \<open>
  \<open>PrivacyWalletState\<close> together with the wallet's \<open>contractService\<close> field, which is
  \<open>null\<close> until \<open>initialize\<close> has run.  What the contract service answers is not part
  of the wallet: it is given by the collaborators record further down.  Persisting the
  state (\<open>saveStateToStorage\<close>) catches and logs its own failures and never changes the
  in-memory state, so the browser storage is left out.
\<close>

record PrivacyWallet =
  keys :: "WalletKeys option"
  "notes" :: "Note list"
  merkleTree :: MerkleTree
  lastSyncedBlock :: int
  isInitialized :: bool
  hasContractService :: bool

text \<open>
  The errors the wallet raises, one constructor for each \<open>throw\<close> of the source.  A
  rejection coming out of a collaborator call (a thrown value the wallet does not
  inspect) is carried as it is in \<open>CollaboratorFailure\<close>; \<open>KeysMissing\<close> is the
  \<open>TypeError\<close> of \<open>this.state.keys!.spendPrivateKey\<close> on absent keys.
\<close>

datatype WalletError =
    ContractServiceNotInitialized
  | InsufficientBalance
  | WalletKeysNotFound
  | ProofGenerationFailed string
  | TransactionExecutionFailed
  | DepositTransactionFailed
  | WithdrawalTransactionFailed
  | SwapExecutionFailed
  | KeysMissing
  | CollaboratorFailure string

text \<open>
  What the wallet's collaborators answer: the chain (through the contract service), the
  prover, and the library functions whose sources are not part of the wallet (stealth
  address generation, which samples a fresh ephemeral key, nullifier derivation, Merkle
  root and proofs).  A call that rejects answers \<open>Inl\<close> with the thrown message.
  \<open>isNullifierUsed\<close> takes the position of the queried note in the note list before
  the nullifier, so that two queries of one sync may be answered differently even for
  equal nullifiers.
\<close>

record Collaborators =
  deposit :: "Address \<Rightarrow> int \<Rightarrow> Hex \<Rightarrow> string + Hex"
  testWithdraw :: "Address \<Rightarrow> int \<Rightarrow> Address \<Rightarrow> string + Hex"
  transact :: "Hex \<Rightarrow> Hex \<Rightarrow> string + Hex"
  swap :: "Hex \<Rightarrow> Hex \<Rightarrow> string + Hex"
  waitForTransaction :: "Hex \<Rightarrow> string + (bool \<times> int)"
  requestTransactionProof :: "TransactionProofRequest \<Rightarrow> ProofResponse"
  fetchAccountUpdatedEvents :: "int \<Rightarrow> string + AccountUpdatedEvent list"
  isNullifierUsed :: "nat \<Rightarrow> Hex \<Rightarrow> string + bool"
  generateStealthAddress :: "Hex \<Rightarrow> Hex \<Rightarrow> string + StealthAddress"
  computeNullifier :: "Hex \<Rightarrow> nat \<Rightarrow> Hex \<Rightarrow> string + Hex"
  generateProof :: "MerkleTree \<Rightarrow> nat \<Rightarrow> string + MerkleProof"
  merkleRoot :: "MerkleTree \<Rightarrow> Hex"

section \<open>The contract service: fetching commitment events\<close>

text \<open>
  \<open>getAccountUpdatedEvents\<close> reads the chain through viem's public client.  Of that
  client the function uses \<open>getBlockNumber\<close> and \<open>getLogs\<close>; the client here is the
  chain as the node sees it: the current block number and the \<open>AccountUpdated\<close> logs of
  the contract, already decoded (the source copies \<open>commitment\<close>, \<open>encryptedMemo\<close>,
  \<open>blockNumber\<close> and \<open>transactionHash\<close> out of each log).  \<open>getLogs\<close> answers the logs
  whose block lies in the requested range, as \<open>eth_getLogs\<close> does.
\<close>

datatype BlockTag = Latest | BlockAt int

record PublicClient =
  currentBlock :: int
  contractLogs :: "AccountUpdatedEvent list"

definition getLogs :: "PublicClient \<Rightarrow> int \<Rightarrow> BlockTag \<Rightarrow> AccountUpdatedEvent list" where
  "getLogs pc fromBlock toBlock =
     filter (\<lambda>l. fromBlock \<le> AccountUpdatedEvent.blockNumber l
                  \<and> (case toBlock of Latest \<Rightarrow> True
                      | BlockAt b \<Rightarrow> AccountUpdatedEvent.blockNumber l \<le> b))
            (contractLogs pc)"

definition MAX_BLOCK_RANGE :: int where
  "MAX_BLOCK_RANGE = 10000"

text \<open>The block the query really starts from (\<open>actualFromBlock\<close> in the source).\<close>

definition actualFromBlock :: "int \<Rightarrow> int \<Rightarrow> BlockTag \<Rightarrow> int" where
  "actualFromBlock current fromBlock toBlock =
     (case toBlock of
        Latest \<Rightarrow>
          (let rangeStart = (if current > MAX_BLOCK_RANGE then current - MAX_BLOCK_RANGE else 0)
           in if fromBlock > rangeStart then fromBlock else rangeStart)
      | BlockAt b \<Rightarrow> fromBlock)"

definition getAccountUpdatedEvents ::
  "PublicClient \<Rightarrow> int \<Rightarrow> BlockTag \<Rightarrow> AccountUpdatedEvent list" where
  "getAccountUpdatedEvents pc fromBlock toBlock =
     getLogs pc (actualFromBlock (currentBlock pc) fromBlock toBlock) toBlock"

text \<open>
  The wallet calls \<open>getAccountUpdatedEvents(lastSyncedBlock)\<close>, so with \<open>toBlock\<close> at its
  default \<open>'latest'\<close>.  Collaborators whose event query is answered by a given chain:
\<close>

definition onChain :: "PublicClient \<Rightarrow> Collaborators \<Rightarrow> Collaborators" where
  "onChain pc env =
     env\<lparr>fetchAccountUpdatedEvents := (\<lambda>fromBlock. Inr (getAccountUpdatedEvents pc fromBlock Latest))\<rparr>"

text \<open>
  A collaborator honours \<open>fromBlock\<close> when no event it returns lies before the block
  it was asked to start from.
\<close>

definition honoursFromBlock :: "Collaborators \<Rightarrow> bool" where
  "honoursFromBlock env \<longleftrightarrow>
     (\<forall>fromBlock events. fetchAccountUpdatedEvents env fromBlock = Inr events
        \<longrightarrow> (\<forall>e \<in> set events. fromBlock \<le> AccountUpdatedEvent.blockNumber e))"

section \<open>Key derivation\<close>

text \<open>
  \<open>bytesToBigInt\<close>: \<open>result = (result << 8n) | BigInt(bytes[i])\<close> over the bytes in
  order, from \<open>0n\<close>.
\<close>

definition bytesToBigInt :: "byte list \<Rightarrow> int" where
  "bytesToBigInt bytes = foldl (\<lambda>result b. push_bit 8 result OR uint b) 0 bytes"

text \<open>
  \<open>bigIntToBytes\<close>: 32 zero bytes, filled from index 31 down to 0 with
  \<open>Number(v & 0xffn)\<close>, \<open>v\<close> shifted right by 8 after each; the first argument of the
  loop is \<open>i + 1\<close>.
\<close>

fun bigIntToBytesLoop :: "nat \<Rightarrow> int \<Rightarrow> byte list \<Rightarrow> byte list" where
  "bigIntToBytesLoop 0 v bytes = bytes"
| "bigIntToBytesLoop (Suc i) v bytes =
     bigIntToBytesLoop i (drop_bit 8 v) (bytes[i := word_of_int (v AND 255)])"

definition bigIntToBytes :: "int \<Rightarrow> byte list" where
  "bigIntToBytes v = bigIntToBytesLoop 32 v (replicate 32 0)"

text \<open>The remainder \<open>%\<close> of \<open>bigint\<close>: it truncates, the sign is the dividend's.\<close>

definition bigintRem :: "int \<Rightarrow> int \<Rightarrow> int" where
  "bigintRem a b = sgn a * (\<bar>a\<bar> mod \<bar>b\<bar>)"

text \<open>The group order \<open>n\<close> of secp256k1, as written in the source.\<close>

definition secp256k1_n :: int where
  "secp256k1_n = 0xfffffffffffffffffffffffffffffffebaaedce6af48a03bbfd25e8cd0364141"

datatype Purpose = View | Spend

text \<open>\<open>new TextEncoder().encode(purpose)\<close> for \<open>"view"\<close> and \<open>"spend"\<close>.\<close>

definition purposeBytes :: "Purpose \<Rightarrow> byte list" where
  "purposeBytes p = map of_char (case p of View \<Rightarrow> ''view'' | Spend \<Rightarrow> ''spend'')"

datatype KeyDerivationError = ZeroPrivateKey | InvalidSecretKey

record KeyPair =
  privateKey :: "byte list"
  publicKey :: "byte list"

text \<open>
  The two primitives come from libraries: \<open>keccak256\<close> (viem) and the curve (noble).
  The hash is a parameter on byte arrays: viem's \<open>Hex\<close> values are the encodings of byte
  arrays, \<open>hexToBytes\<close> and \<open>bytesToHex\<close> converting between the two, so that
  \<open>keccak256(bytesToHex(b))\<close> read back by \<open>hexToBytes\<close> is the hash of \<open>b\<close>.  Of the
  curve, the parameter \<open>mulG k\<close> is the encoding of the point \<open>k\<cdot>G\<close>;
  \<open>secp256k1.getPublicKey\<close> reads its argument as a big-endian scalar, rejects one that
  is not 32 bytes long or not in the range from 1 to \<open>n - 1\<close>, and answers that point.
\<close>

definition getPublicKey :: "(int \<Rightarrow> byte list) \<Rightarrow> byte list \<Rightarrow> KeyDerivationError + byte list" where
  "getPublicKey mulG secretKey =
     (let k = bytesToBigInt secretKey
      in if length secretKey = 32 \<and> 0 < k \<and> k < secp256k1_n then Inr (mulG k)
         else Inl InvalidSecretKey)"

text \<open>\<open>deriveKeyPairFromSignature\<close>, on the bytes of the signature.\<close>

definition deriveKeyPairFromSignature ::
  "(byte list \<Rightarrow> byte list) \<Rightarrow> (int \<Rightarrow> byte list) \<Rightarrow> byte list \<Rightarrow> Purpose
     \<Rightarrow> KeyDerivationError + KeyPair" where
  "deriveKeyPairFromSignature keccak256 mulG sigBytes purpose =
     (let combined = sigBytes @ purposeBytes purpose;
          hash1 = keccak256 combined;
          hash2 = keccak256 hash1;
          seedBytes = hash2;
          privateKeyScalar = bigintRem (bytesToBigInt seedBytes) secp256k1_n
      in if privateKeyScalar = 0 then Inl ZeroPrivateKey
         else
           let privKey = bigIntToBytes privateKeyScalar
           in case getPublicKey mulG privKey of
                Inl e \<Rightarrow> Inl e
              | Inr pubKey \<Rightarrow> Inr \<lparr>privateKey = privKey, publicKey = pubKey\<rparr>)"

text \<open>
  \<open>exportPublicKeys\<close> builds an object literal; the object is its list of properties,
  name and value, in the order written.
\<close>

type_synonym JsObject = "(string \<times> string) list"

definition exportPublicKeys :: "WalletKeys \<Rightarrow> JsObject" where
  "exportPublicKeys ks =
     [(''address'', address ks),
      (''viewPublicKey'', bytesToHex (viewPublicKey ks)),
      (''spendPublicKey'', bytesToHex (spendPublicKey ks))]"

text \<open>The names of an object's properties, and reading one.\<close>

definition propertyNames :: "JsObject \<Rightarrow> string list" where
  "propertyNames obj = map fst obj"

definition property :: "JsObject \<Rightarrow> string \<Rightarrow> string" where
  "property obj name = (case map_of obj name of Some v \<Rightarrow> v | None \<Rightarrow> ''undefined'')"

section \<open>The privacy wallet\<close>

subsection \<open>Balance queries and coin selection\<close>

text \<open>
  \<open>getNotesForToken\<close>: the unspent notes whose token equals the given one, compared
  case-insensitively; a fresh array in the order of \<open>state.notes\<close>.
\<close>

definition getNotesForToken :: "PrivacyWallet \<Rightarrow> Address \<Rightarrow> Note list" where
  "getNotesForToken w tok =
     filter (\<lambda>n. \<not> spent n \<and> toLowerCase (token n) = toLowerCase tok) (notes w)"

text \<open>The wallet's unspent total for a token: the amounts of those notes, added up.\<close>

definition unspentBalanceFor :: "PrivacyWallet \<Rightarrow> Address \<Rightarrow> int" where
  "unspentBalanceFor w tok = sum_list (map amount (getNotesForToken w tok))"

text \<open>
  \<open>Array.prototype.sort\<close> with the comparator \<open>Number(b.amount - a.amount)\<close>.  The
  comparator's sign is the sign of \<open>b.amount - a.amount\<close> (the conversion of a non-zero
  \<open>bigint\<close> to a number never yields zero and keeps the sign), and the sort is stable:
  the result is the stable sort by descending amount, which is what insertion by the key
  \<open>- amount\<close> computes.
\<close>

definition sortByAmountDesc :: "Note list \<Rightarrow> Note list" where
  "sortByAmountDesc ns = sort_key (\<lambda>n. - amount n) ns"

text \<open>
  The selection loop: \<open>for (const note of availableNotes) { if (total >= targetAmount) break;
  selected.push(note); total += note.amount; }\<close>.
\<close>

fun accumulateNotes :: "int \<Rightarrow> Note list \<Rightarrow> Note list \<Rightarrow> int \<Rightarrow> Note list \<times> int" where
  "accumulateNotes targetAmount [] selected tot = (selected, tot)"
| "accumulateNotes targetAmount (n # rest) selected tot =
     (if tot \<ge> targetAmount then (selected, tot)
      else accumulateNotes targetAmount rest (selected @ [n]) (tot + amount n))"

definition selectNotesForAmount :: "PrivacyWallet \<Rightarrow> Address \<Rightarrow> int \<Rightarrow> Note list \<times> int" where
  "selectNotesForAmount w tok targetAmount =
     accumulateNotes targetAmount (sortByAmountDesc (getNotesForToken w tok)) [] 0"

subsection \<open>Marking notes spent\<close>

text \<open>
  One round of the loop of \<open>markNotesSpent\<close>: \<open>find\<close> answers the first note whose
  nullifier equals the given one up to case, and that note's \<open>spent\<close> is set.
\<close>

fun markFirst :: "Hex \<Rightarrow> Note list \<Rightarrow> Note list" where
  "markFirst nf [] = []"
| "markFirst nf (n # ns) =
     (if toLowerCase (nullifier n) = toLowerCase nf then n\<lparr>spent := True\<rparr> # ns
      else n # markFirst nf ns)"

definition markNotesSpentIn :: "Hex list \<Rightarrow> Note list \<Rightarrow> Note list" where
  "markNotesSpentIn nullifiers ns = foldl (\<lambda>acc nf. markFirst nf acc) ns nullifiers"

definition markNotesSpent :: "PrivacyWallet \<Rightarrow> Hex list \<Rightarrow> PrivacyWallet" where
  "markNotesSpent w nullifiers = w\<lparr>notes := markNotesSpentIn nullifiers (notes w)\<rparr>"

subsection \<open>Deposit, withdrawal, transfer and swap\<close>

text \<open>
  Every operation answers the value it resolves with, or the error it rejects with,
  together with the wallet state it leaves behind.
\<close>

text \<open>\<open>getPublicKeys\<close> of the wallet: \<open>null\<close> without keys, else \<open>exportPublicKeys\<close>.\<close>

definition getPublicKeys :: "PrivacyWallet \<Rightarrow> JsObject option" where
  "getPublicKeys w = (case keys w of None \<Rightarrow> None | Some k \<Rightarrow> Some (exportPublicKeys k))"

definition executeDeposit ::
  "Collaborators \<Rightarrow> PrivacyWallet \<Rightarrow> Address \<Rightarrow> int \<Rightarrow> Commitment
     \<Rightarrow> (WalletError + Hex \<times> Note) \<times> PrivacyWallet" where
  "executeDeposit env w tok amt c =
     (if \<not> hasContractService w then (Inl ContractServiceNotInitialized, w)
      else case deposit env tok amt (Commitment.commitment c) of
        Inl msg \<Rightarrow> (Inl (CollaboratorFailure msg), w)
      | Inr txHash \<Rightarrow>
         (case waitForTransaction env txHash of
            Inl msg \<Rightarrow> (Inl (CollaboratorFailure msg), w)
          | Inr result \<Rightarrow>
             if \<not> fst result then (Inl DepositTransactionFailed, w)
             else
               let idx = nextLeafIndex (merkleTree w);
                   w1 = w\<lparr>merkleTree := insertLeaf (merkleTree w) (Commitment.commitment c)\<rparr>
               in (case keys w1 of
                     None \<Rightarrow> (Inl KeysMissing, w1)
                   | Some k \<Rightarrow>
                      (case computeNullifier env (bytesToHex (spendPrivateKey k)) idx
                              (Commitment.commitment c) of
                         Inl msg \<Rightarrow> (Inl (CollaboratorFailure msg), w1)
                       | Inr nf \<Rightarrow>
                          let note = \<lparr>commitment = Commitment.commitment c,
                                      amount = Commitment.amount c,
                                      blinding = Commitment.blinding c,
                                      token = tok,
                                      leafIndex = idx,
                                      nullifier = nf,
                                      spent = False,
                                      blockNumber = snd result\<rparr>
                          in (Inr (txHash, note), w1\<lparr>notes := notes w1 @ [note]\<rparr>)))))"

definition executeWithdraw ::
  "Collaborators \<Rightarrow> PrivacyWallet \<Rightarrow> Address \<Rightarrow> int \<Rightarrow> Address \<Rightarrow> Note list
     \<Rightarrow> (WalletError + Hex) \<times> PrivacyWallet" where
  "executeWithdraw env w tok amt receiver spentNotes =
     (if \<not> hasContractService w then (Inl ContractServiceNotInitialized, w)
      else
        let nullifiers = map nullifier spentNotes
        in case testWithdraw env tok amt receiver of
          Inl msg \<Rightarrow> (Inl (CollaboratorFailure msg), w)
        | Inr txHash \<Rightarrow>
           (case waitForTransaction env txHash of
              Inl msg \<Rightarrow> (Inl (CollaboratorFailure msg), w)
            | Inr result \<Rightarrow>
               if \<not> fst result then (Inl WithdrawalTransactionFailed, w)
               else (Inr txHash, markNotesSpent w nullifiers)))"

text \<open>
  The change output of a transfer: \<open>throw new Error("Wallet keys not found")\<close> without
  keys, else a fresh stealth address for the wallet's own public keys.
\<close>

definition changeOutput ::
  "Collaborators \<Rightarrow> PrivacyWallet \<Rightarrow> int \<Rightarrow> WalletError + TransactionOutput list" where
  "changeOutput env w change =
     (if change > 0 then
        (case getPublicKeys w of
           None \<Rightarrow> Inl WalletKeysNotFound
         | Some myPublicKeys \<Rightarrow>
            (case generateStealthAddress env (property myPublicKeys ''viewPublicKey'')
                    (property myPublicKeys ''spendPublicKey'') of
               Inl msg \<Rightarrow> Inl (CollaboratorFailure msg)
             | Inr changeAddress \<Rightarrow>
                Inr [\<lparr>TransactionOutput.amount = change, recipient = changeAddress\<rparr>]))
      else Inr [])"

text \<open>
  The prover's input notes: each selected note with its Merkle path.  The source calls
  \<open>generateMerkleProof\<close> twice for a note, with the same index on the same tree.
\<close>

fun proverInputNotes ::
  "Collaborators \<Rightarrow> MerkleTree \<Rightarrow> Note list \<Rightarrow> string + ProverInputNote list" where
  "proverInputNotes env t [] = Inr []"
| "proverInputNotes env t (n # ns) =
     (case generateProof env t (leafIndex n) of
        Inl msg \<Rightarrow> Inl msg
      | Inr p \<Rightarrow>
         (case proverInputNotes env t ns of
            Inl msg \<Rightarrow> Inl msg
          | Inr rest \<Rightarrow>
             Inr (\<lparr>ProverInputNote.commitment = commitment n,
                   ProverInputNote.amount = amount n,
                   ProverInputNote.blinding = blinding n,
                   ProverInputNote.leafIndex = leafIndex n,
                   ProverInputNote.pathElements = MerkleProof.pathElements p,
                   ProverInputNote.pathIndices = MerkleProof.pathIndices p\<rparr> # rest)))"

definition proverOutputNotes :: "TransactionOutput list \<Rightarrow> ProverOutputNote list" where
  "proverOutputNotes finalOutputs =
     map (\<lambda>out. \<lparr>ProverOutputNote.amount = TransactionOutput.amount out,
                  recipientPublicKey = ephmeralPublicKey (recipient out)\<rparr>) finalOutputs"

text \<open>
  \<open>executeTransaction\<close> up to the request for a proof: the guard on the contract
  service, the total of the outputs, the selection of inputs, the balance check, the
  change output and the proof request.  Nothing of the wallet is written here; the
  result is the selected input notes and the request sent to the prover.
\<close>

definition prepareTransaction ::
  "Collaborators \<Rightarrow> PrivacyWallet \<Rightarrow> Address \<Rightarrow> TransactionOutput list
     \<Rightarrow> WalletError + Note list \<times> TransactionProofRequest" where
  "prepareTransaction env w tok outputs =
     (if \<not> hasContractService w then Inl ContractServiceNotInitialized
      else
        let totalOutput = foldl (\<lambda>s out. s + TransactionOutput.amount out) 0 outputs;
            selection = selectNotesForAmount w tok totalOutput;
            inputNotesArray = fst selection;
            totalInput = snd selection
        in if totalInput < totalOutput then Inl InsufficientBalance
           else
             let change = totalInput - totalOutput
             in case changeOutput env w change of
                  Inl e \<Rightarrow> Inl e
                | Inr extra \<Rightarrow>
                   let finalOutputs = outputs @ extra
                   in (case proverInputNotes env (merkleTree w) inputNotesArray of
                         Inl msg \<Rightarrow> Inl (CollaboratorFailure msg)
                       | Inr ins \<Rightarrow>
                          Inr (inputNotesArray,
                               \<lparr>inputNotes = ins,
                                outputNotes = proverOutputNotes finalOutputs,
                                currentRoot = merkleRoot env (merkleTree w)\<rparr>)))"

text \<open>\<open>proofResponse.error || "Failed to generate transaction proof"\<close>.\<close>

definition proofErrorMessage :: "ProofResponse \<Rightarrow> string" where
  "proofErrorMessage r =
     (case error r of
        None \<Rightarrow> ''Failed to generate transaction proof''
      | Some m \<Rightarrow> if m = [] then ''Failed to generate transaction proof'' else m)"

definition executeTransaction ::
  "Collaborators \<Rightarrow> PrivacyWallet \<Rightarrow> Address \<Rightarrow> TransactionOutput list
     \<Rightarrow> (WalletError + Hex) \<times> PrivacyWallet" where
  "executeTransaction env w tok outputs =
     (case prepareTransaction env w tok outputs of
        Inl e \<Rightarrow> (Inl e, w)
      | Inr prepared \<Rightarrow>
         let inputNotesArray = fst prepared;
             proofResponse = requestTransactionProof env (snd prepared)
         in if \<not> success proofResponse
            then (Inl (ProofGenerationFailed (proofErrorMessage proofResponse)), w)
            else
              (case transact env (publicInputs proofResponse) (proofBytes proofResponse) of
                 Inl msg \<Rightarrow> (Inl (CollaboratorFailure msg), w)
               | Inr txHash \<Rightarrow>
                  (case waitForTransaction env txHash of
                     Inl msg \<Rightarrow> (Inl (CollaboratorFailure msg), w)
                   | Inr result \<Rightarrow>
                      if \<not> fst result then (Inl TransactionExecutionFailed, w)
                      else (Inr txHash, markNotesSpent w (map nullifier inputNotesArray)))))"

definition executeSwap ::
  "Collaborators \<Rightarrow> PrivacyWallet \<Rightarrow> Hex \<Rightarrow> Hex \<Rightarrow> (WalletError + Hex) \<times> PrivacyWallet" where
  "executeSwap env w pubInputs proof =
     (if \<not> hasContractService w then (Inl ContractServiceNotInitialized, w)
      else case swap env pubInputs proof of
        Inl msg \<Rightarrow> (Inl (CollaboratorFailure msg), w)
      | Inr txHash \<Rightarrow>
         (case waitForTransaction env txHash of
            Inl msg \<Rightarrow> (Inl (CollaboratorFailure msg), w)
          | Inr result \<Rightarrow>
             if \<not> fst result then (Inl SwapExecutionFailed, w) else (Inr txHash, w)))"

subsection \<open>Synchronisation with the chain\<close>

text \<open>The loop that appends the commitments of the events not yet in the tree.\<close>

fun insertNewCommitments :: "MerkleTree \<Rightarrow> AccountUpdatedEvent list \<Rightarrow> MerkleTree" where
  "insertNewCommitments t [] = t"
| "insertNewCommitments t (e # es) =
     insertNewCommitments
       (if findLeafIndex t (AccountUpdatedEvent.commitment e) = -1
        then insertLeaf t (AccountUpdatedEvent.commitment e) else t) es"

text \<open>
  The loop over the notes: a spent note is skipped, an unspent one is looked up on the
  chain and flagged when its nullifier was used.  A rejected query leaves the loop with
  the notes before it updated and the others untouched; the first component is the
  thrown message, if any.  \<open>i\<close> is the position of the first note of the list.
\<close>

fun checkSpentNotes :: "Collaborators \<Rightarrow> nat \<Rightarrow> Note list \<Rightarrow> string option \<times> Note list" where
  "checkSpentNotes env i [] = (None, [])"
| "checkSpentNotes env i (n # ns) =
     (if spent n then
        (let r = checkSpentNotes env (Suc i) ns in (fst r, n # snd r))
      else case isNullifierUsed env i (nullifier n) of
        Inl msg \<Rightarrow> (Some msg, n # ns)
      | Inr isUsed \<Rightarrow>
         (let r = checkSpentNotes env (Suc i) ns
          in (fst r, (if isUsed then n\<lparr>spent := True\<rparr> else n) # snd r)))"

text \<open>
  The body of the \<open>try\<close> block of \<open>syncWithChain\<close>: the error it leaves the block
  with, if any, and the state at that moment.
\<close>

definition syncAttempt :: "Collaborators \<Rightarrow> PrivacyWallet \<Rightarrow> string option \<times> PrivacyWallet" where
  "syncAttempt env w =
     (if notes w = [] \<and> lastSyncedBlock w = 0 then (None, w)
      else case fetchAccountUpdatedEvents env (lastSyncedBlock w) of
        Inl msg \<Rightarrow> (Some msg, w)
      | Inr events \<Rightarrow>
         let w1 = w\<lparr>merkleTree := insertNewCommitments (merkleTree w) events\<rparr>;
             w2 = (if events \<noteq> []
                   then w1\<lparr>lastSyncedBlock := AccountUpdatedEvent.blockNumber (last events) + 1\<rparr>
                   else w1);
             r = checkSpentNotes env 0 (notes w2)
         in (fst r, w2\<lparr>notes := snd r\<rparr>))"

text \<open>
  \<open>syncWithChain\<close>: nothing without a contract service; else the attempt, whose error
  the \<open>catch\<close> clause logs and drops.
\<close>

definition syncWithChain :: "Collaborators \<Rightarrow> PrivacyWallet \<Rightarrow> (WalletError + unit) \<times> PrivacyWallet" where
  "syncWithChain env w =
     (if \<not> hasContractService w then (Inr (), w)
      else case syncAttempt env w of (logged, w') \<Rightarrow> (Inr (), w'))"

subsection \<open>The mutating operations of a wallet\<close>

text \<open>
  The operations of a wallet in use: \<open>executeDeposit\<close>, \<open>executeWithdraw\<close>,
  \<open>executeTransaction\<close>, \<open>executeSwap\<close>, \<open>markNotesSpent\<close> and \<open>syncWithChain\<close>.  The
  two methods that set a wallet up or tear it down are not operations in this sense and
  are not modelled: \<open>initialize\<close>, whose \<open>loadStateFromStorage\<close> replaces the notes, the
  tree and \<open>lastSyncedBlock\<close> by what the storage holds, and \<open>clearStorage\<close>, which
  resets the state to that of a new wallet.
\<close>

datatype Operation =
    Deposit Address int Commitment
  | Withdraw Address int Address "Note list"
  | Transfer Address "TransactionOutput list"
  | Swap Hex Hex
  | MarkNotesSpent "Hex list"
  | Sync

text \<open>The state an operation leaves behind, whether it resolved or rejected.\<close>

fun perform :: "Collaborators \<Rightarrow> Operation \<Rightarrow> PrivacyWallet \<Rightarrow> PrivacyWallet" where
  "perform env (Deposit tok amt c) w = snd (executeDeposit env w tok amt c)"
| "perform env (Withdraw tok amt receiver ns) w = snd (executeWithdraw env w tok amt receiver ns)"
| "perform env (Transfer tok outputs) w = snd (executeTransaction env w tok outputs)"
| "perform env (Swap pubInputs proof) w = snd (executeSwap env w pubInputs proof)"
| "perform env (MarkNotesSpent nullifiers) w = markNotesSpent w nullifiers"
| "perform env Sync w = snd (syncWithChain env w)"

text \<open>A run of operations, each with the collaborators' answers at its time.\<close>

fun performAll :: "(Collaborators \<times> Operation) list \<Rightarrow> PrivacyWallet \<Rightarrow> PrivacyWallet" where
  "performAll [] w = w"
| "performAll (step # steps) w = performAll steps (perform (fst step) (snd step) w)"

subsection \<open>How a note list may evolve\<close>

text \<open>
  \<open>onlySpentFlips old new\<close>: the list \<open>new\<close> keeps every note of \<open>old\<close> at its
  position, either as it was or with \<open>spent\<close> turned from \<open>false\<close> to \<open>true\<close> and
  nothing else changed; \<open>new\<close> may have further notes after them.
\<close>

fun onlySpentFlips :: "Note list \<Rightarrow> Note list \<Rightarrow> bool" where
  "onlySpentFlips [] new = True"
| "onlySpentFlips (n # old) [] = False"
| "onlySpentFlips (n # old) (n' # new) =
     ((n' = n \<or> (\<not> spent n \<and> n' = n\<lparr>spent := True\<rparr>)) \<and> onlySpentFlips old new)"

section \<open>Example inputs\<close>

text \<open>
  A wallet with three notes of one token, written in different cases, and one note of
  another token; the third note is already spent.
\<close>

definition exampleNotes :: "Note list" where
  "exampleNotes =
     [\<lparr>commitment = ''0xc1'', amount = 30, blinding = ''0xb1'', token = ''0xAbCd'',
       leafIndex = 0, nullifier = ''0xAA01'', spent = False, blockNumber = 10\<rparr>,
      \<lparr>commitment = ''0xc2'', amount = 50, blinding = ''0xb2'', token = ''0xabcd'',
       leafIndex = 1, nullifier = ''0xaa02'', spent = False, blockNumber = 11\<rparr>,
      \<lparr>commitment = ''0xc3'', amount = 20, blinding = ''0xb3'', token = ''0xABCD'',
       leafIndex = 2, nullifier = ''0xaa03'', spent = True, blockNumber = 12\<rparr>,
      \<lparr>commitment = ''0xc4'', amount = 70, blinding = ''0xb4'', token = ''0xeeee'',
       leafIndex = 3, nullifier = ''0xaa04'', spent = False, blockNumber = 13\<rparr>]"

definition exampleKeys :: WalletKeys where
  "exampleKeys =
     \<lparr>address = ''0x742d'', viewPrivateKey = [1, 1], viewPublicKey = [2, 171],
      spendPrivateKey = [3, 3], spendPublicKey = [4, 205]\<rparr>"

definition exampleWallet :: PrivacyWallet where
  "exampleWallet =
     \<lparr>keys = Some exampleKeys, notes = exampleNotes,
      merkleTree = [''0xc1'', ''0xc2'', ''0xc3'', ''0xc4''],
      lastSyncedBlock = 100, isInitialized = True, hasContractService = True\<rparr>"

text \<open>Collaborators for which every call succeeds: no new events, no nullifier used.\<close>

definition quietCollaborators :: Collaborators where
  "quietCollaborators =
     \<lparr>deposit = (\<lambda>tok amt c. Inr ''0xd0''),
      testWithdraw = (\<lambda>tok amt receiver. Inr ''0xd1''),
      transact = (\<lambda>pubInputs proof. Inr ''0xd2''),
      swap = (\<lambda>pubInputs proof. Inr ''0xd3''),
      waitForTransaction = (\<lambda>txHash. Inr (True, 120)),
      requestTransactionProof =
        (\<lambda>req. \<lparr>publicInputs = ''0x00'', proofBytes = ''0x00'', success = True, error = None\<rparr>),
      fetchAccountUpdatedEvents = (\<lambda>fromBlock. Inr []),
      isNullifierUsed = (\<lambda>i nf. Inr False),
      generateStealthAddress =
        (\<lambda>viewPub spendPub.
           Inr \<lparr>StealthAddress.address = ''0x5a'', ephmeralPublicKey = ''0x02ee'', viewTag = 7\<rparr>),
      computeNullifier = (\<lambda>spendPriv idx c. Inr ''0xaa05''),
      generateProof = (\<lambda>t idx. Inr \<lparr>leaf = ''0x00'', MerkleProof.pathElements = [], MerkleProof.pathIndices = []\<rparr>),
      merkleRoot = (\<lambda>t. ''0x77'')\<rparr>"

text \<open>The same, with a prover that answers a failure.\<close>

definition failingProver :: Collaborators where
  "failingProver =
     quietCollaborators\<lparr>requestTransactionProof :=
       (\<lambda>req. \<lparr>publicInputs = ''0x'', proofBytes = ''0x'', success = False,
                 error = Some ''Prover API error: 500''\<rparr>)\<rparr>"

text \<open>
  Two new commitments in blocks 105 and 110 for a query from block 100 or before, none
  later.  With \<open>flakyCollaborators\<close> the nullifier query for the note at position 1 is
  rejected; with \<open>steadyCollaborators\<close> it is answered.  The note at position 0 is
  reported spent by both.
\<close>

definition twoEvents :: "AccountUpdatedEvent list" where
  "twoEvents =
     [\<lparr>AccountUpdatedEvent.commitment = ''0xc5'', encryptedMemo = ''0x'',
        AccountUpdatedEvent.blockNumber = 105, transactionHash = ''0xe1''\<rparr>,
      \<lparr>AccountUpdatedEvent.commitment = ''0xc2'', encryptedMemo = ''0x'',
        AccountUpdatedEvent.blockNumber = 110, transactionHash = ''0xe2''\<rparr>]"

definition flakyCollaborators :: Collaborators where
  "flakyCollaborators =
     quietCollaborators\<lparr>
       fetchAccountUpdatedEvents := (\<lambda>fromBlock. if fromBlock \<le> 100 then Inr twoEvents else Inr []),
       isNullifierUsed := (\<lambda>i nf. if i = 1 then Inl ''request timed out'' else Inr (i = 0))\<rparr>"

definition steadyCollaborators :: Collaborators where
  "steadyCollaborators =
     quietCollaborators\<lparr>
       fetchAccountUpdatedEvents := (\<lambda>fromBlock. if fromBlock \<le> 100 then Inr twoEvents else Inr []),
       isNullifierUsed := (\<lambda>i nf. Inr (i = 0 \<or> i = 1))\<rparr>"

text \<open>A collaborator that answers an event of block 5 whatever it was asked for.\<close>

definition staleCollaborators :: Collaborators where
  "staleCollaborators =
     quietCollaborators\<lparr>fetchAccountUpdatedEvents :=
       (\<lambda>fromBlock. Inr [\<lparr>AccountUpdatedEvent.commitment = ''0xc9'', encryptedMemo = ''0x'',
        AccountUpdatedEvent.blockNumber = 5,
                            transactionHash = ''0xe9''\<rparr>])\<rparr>"

text \<open>A chain at block 20000 with logs in the blocks 5000, 15000 and 15500.\<close>

definition exampleChain :: PublicClient where
  "exampleChain =
     \<lparr>currentBlock = 20000,
      contractLogs =
        [\<lparr>AccountUpdatedEvent.commitment = ''0xc7'', encryptedMemo = ''0x'',
        AccountUpdatedEvent.blockNumber = 5000, transactionHash = ''0xe7''\<rparr>,
         \<lparr>AccountUpdatedEvent.commitment = ''0xc5'', encryptedMemo = ''0x'',
        AccountUpdatedEvent.blockNumber = 15000, transactionHash = ''0xe5''\<rparr>,
         \<lparr>AccountUpdatedEvent.commitment = ''0xc6'', encryptedMemo = ''0x'',
        AccountUpdatedEvent.blockNumber = 15500, transactionHash = ''0xe6''\<rparr>]\<rparr>"

text \<open>Transfer outputs of 60 and of 500 units, and a deposit of 25.\<close>

definition payTo :: "int \<Rightarrow> TransactionOutput" where
  "payTo amt =
     \<lparr>TransactionOutput.amount = amt,
      recipient = \<lparr>StealthAddress.address = ''0x6b'', ephmeralPublicKey = ''0x03ff'', viewTag = 9\<rparr>\<rparr>"

definition exampleDeposit :: Commitment where
  "exampleDeposit = \<lparr>Commitment.commitment = ''0xc8'', Commitment.amount = 25,
      Commitment.blinding = ''0xb8''\<rparr>"

text \<open>A wallet that was never initialised, and one holding a note of negative amount.\<close>

definition freshWallet :: PrivacyWallet where
  "freshWallet =
     \<lparr>keys = None, notes = [], merkleTree = [], lastSyncedBlock = 0,
      isInitialized = False, hasContractService = False\<rparr>"

definition debtWallet :: PrivacyWallet where
  "debtWallet =
     exampleWallet\<lparr>notes :=
       [\<lparr>commitment = ''0xc1'', amount = 5, blinding = ''0xb1'', token = ''0xabcd'',
         leafIndex = 0, nullifier = ''0xaa01'', spent = False, blockNumber = 10\<rparr>,
        \<lparr>commitment = ''0xc2'', amount = - 3, blinding = ''0xb2'', token = ''0xabcd'',
         leafIndex = 1, nullifier = ''0xaa02'', spent = False, blockNumber = 11\<rparr>]\<rparr>"

text \<open>A run of three operations: a deposit, a transfer and a sync.\<close>

definition exampleRun :: "(Collaborators \<times> Operation) list" where
  "exampleRun =
     [(quietCollaborators, Deposit ''0xabcd'' 25 exampleDeposit),
      (quietCollaborators, Transfer ''0xabcd'' [payTo 60]),
      (onChain exampleChain steadyCollaborators, Sync)]"

text \<open>Stand-ins for the hash and the curve, to run the key derivation on.\<close>

definition lengthHash :: "byte list \<Rightarrow> byte list" where
  "lengthHash bs = [of_nat (length bs), 3]"

definition emptyHash :: "byte list \<Rightarrow> byte list" where
  "emptyHash bs = []"

definition scalarBytes :: "int \<Rightarrow> byte list" where
  "scalarBytes k = [2, word_of_int k]"


section \<open>Coin selection covers the target\<close>

lemma accumulateNotes_split:
  "\<exists>taken left. avail = taken @ left
      \<and> accumulateNotes t avail sel tot = (sel @ taken, tot + sum_list (map amount taken))
      \<and> (tot + sum_list (map amount taken) < t \<longrightarrow> left = [])"
proof (induction avail arbitrary: sel tot)
  case Nil
  then show ?case by simp
next
  case (Cons n rest)
  show ?case
  proof (cases "tot \<ge> t")
    case True
    then have "n # rest = [] @ (n # rest)
        \<and> accumulateNotes t (n # rest) sel tot = (sel @ [], tot + sum_list (map amount []))
        \<and> (tot + sum_list (map amount []) < t \<longrightarrow> n # rest = [])"
      by simp
    then show ?thesis by blast
  next
    case False
    from Cons.IH [of "sel @ [n]" "tot + amount n"]
    obtain taken left where
      a: "rest = taken @ left" and
      b: "accumulateNotes t rest (sel @ [n]) (tot + amount n)
            = ((sel @ [n]) @ taken, (tot + amount n) + sum_list (map amount taken))" and
      c: "(tot + amount n) + sum_list (map amount taken) < t \<longrightarrow> left = []"
      by blast
    from False a b c have "n # rest = (n # taken) @ left
        \<and> accumulateNotes t (n # rest) sel tot
            = (sel @ (n # taken), tot + sum_list (map amount (n # taken)))
        \<and> (tot + sum_list (map amount (n # taken)) < t \<longrightarrow> left = [])"
      by (simp add: add.assoc)
    then show ?thesis by blast
  qed
qed

lemma sum_amount_sortByAmountDesc:
  "sum_list (map amount (sortByAmountDesc ns)) = sum_list (map amount ns)"
proof -
  have "mset (map amount (sortByAmountDesc ns)) = mset (map amount ns)"
    by (simp add: sortByAmountDesc_def)
  then have "sum_mset (mset (map amount (sortByAmountDesc ns))) = sum_mset (mset (map amount ns))"
    by simp
  then show ?thesis by (simp only: sum_mset_sum_list)
qed

lemma selectNotesForAmount_prefix:
  "\<exists>left. sortByAmountDesc (getNotesForToken w tok) = fst (selectNotesForAmount w tok t) @ left
     \<and> snd (selectNotesForAmount w tok t) = sum_list (map amount (fst (selectNotesForAmount w tok t)))
     \<and> (snd (selectNotesForAmount w tok t) < t \<longrightarrow> left = [])"
proof -
  from accumulateNotes_split [of "sortByAmountDesc (getNotesForToken w tok)" t "[]" 0]
  obtain taken left where
    a: "sortByAmountDesc (getNotesForToken w tok) = taken @ left" and
    b: "accumulateNotes t (sortByAmountDesc (getNotesForToken w tok)) [] 0
          = ([] @ taken, 0 + sum_list (map amount taken))" and
    c: "0 + sum_list (map amount taken) < t \<longrightarrow> left = []"
    by blast
  from a b c show ?thesis
    by (simp add: selectNotesForAmount_def)
qed

text \<open>
  C1.  For every wallet state, token and target amount, \<open>selectNotesForAmount\<close> returns a
  total below the target only when the wallet's unspent balance for that token is itself
  below the target; every selected note is an unspent note of that token (the selection
  is a sub-multiset of the token's unspent notes), and the amounts of the selected notes
  add up to the returned total.
\<close>

theorem selectNotesForAmount_covers_target:
  "(snd (selectNotesForAmount w tok t) < t \<longrightarrow> unspentBalanceFor w tok < t)
   \<and> mset (fst (selectNotesForAmount w tok t)) \<subseteq># mset (getNotesForToken w tok)
   \<and> (\<forall>n \<in> set (fst (selectNotesForAmount w tok t)).
         n \<in> set (notes w) \<and> \<not> spent n \<and> toLowerCase (token n) = toLowerCase tok)
   \<and> sum_list (map amount (fst (selectNotesForAmount w tok t))) = snd (selectNotesForAmount w tok t)"
proof -
  obtain left where
    a: "sortByAmountDesc (getNotesForToken w tok) = fst (selectNotesForAmount w tok t) @ left" and
    b: "snd (selectNotesForAmount w tok t) = sum_list (map amount (fst (selectNotesForAmount w tok t)))" and
    c: "snd (selectNotesForAmount w tok t) < t \<longrightarrow> left = []"
    using selectNotesForAmount_prefix by blast
  have m: "mset (getNotesForToken w tok) = mset (fst (selectNotesForAmount w tok t)) + mset left"
  proof -
    have "mset (sortByAmountDesc (getNotesForToken w tok)) = mset (getNotesForToken w tok)"
      by (simp add: sortByAmountDesc_def)
    with a show ?thesis by simp
  qed
  have p1: "snd (selectNotesForAmount w tok t) < t \<longrightarrow> unspentBalanceFor w tok < t"
  proof
    assume lt: "snd (selectNotesForAmount w tok t) < t"
    with c a have "sortByAmountDesc (getNotesForToken w tok) = fst (selectNotesForAmount w tok t)"
      by simp
    then have "sum_list (map amount (fst (selectNotesForAmount w tok t))) = unspentBalanceFor w tok"
      using sum_amount_sortByAmountDesc [of "getNotesForToken w tok"]
      by (simp add: unspentBalanceFor_def)
    with b lt show "unspentBalanceFor w tok < t" by simp
  qed
  have p2: "mset (fst (selectNotesForAmount w tok t)) \<subseteq># mset (getNotesForToken w tok)"
    using m by simp
  have p3: "\<forall>n \<in> set (fst (selectNotesForAmount w tok t)).
         n \<in> set (notes w) \<and> \<not> spent n \<and> toLowerCase (token n) = toLowerCase tok"
  proof
    fix n assume "n \<in> set (fst (selectNotesForAmount w tok t))"
    then have "n \<in># mset (getNotesForToken w tok)"
      using m by simp
    then have "n \<in> set (getNotesForToken w tok)" by simp
    then show "n \<in> set (notes w) \<and> \<not> spent n \<and> toLowerCase (token n) = toLowerCase tok"
      by (simp add: getNotesForToken_def)
  qed
  from p1 p2 p3 b show ?thesis by simp
qed

text \<open>
  The example wallet holds 80 unspent units of the token; asked for 200 it selects both
  notes, largest first, and the total it returns is short only because the balance is.
\<close>

theorem selectNotesForAmount_covers_target_witness:
  "snd (selectNotesForAmount exampleWallet ''0xABCD'' 200) < 200
   \<and> unspentBalanceFor exampleWallet ''0xABCD'' < 200
   \<and> map amount (fst (selectNotesForAmount exampleWallet ''0xABCD'' 200)) = [50, 30]
   \<and> hd (fst (selectNotesForAmount exampleWallet ''0xABCD'' 200)) \<in> set (notes exampleWallet)
   \<and> \<not> spent (hd (fst (selectNotesForAmount exampleWallet ''0xABCD'' 200)))
   \<and> sum_list (map amount (fst (selectNotesForAmount exampleWallet ''0xABCD'' 200)))
       = snd (selectNotesForAmount exampleWallet ''0xABCD'' 200)"
proof -
  have short: "snd (selectNotesForAmount exampleWallet ''0xABCD'' 200) < 200"
    by code_simp
  have picked: "map amount (fst (selectNotesForAmount exampleWallet ''0xABCD'' 200)) = [50, 30]"
    by code_simp
  then have "fst (selectNotesForAmount exampleWallet ''0xABCD'' 200) \<noteq> []"
    by auto
  then have first: "hd (fst (selectNotesForAmount exampleWallet ''0xABCD'' 200))
      \<in> set (fst (selectNotesForAmount exampleWallet ''0xABCD'' 200))"
    by simp
  note covers = selectNotesForAmount_covers_target [of exampleWallet "''0xABCD''" 200]
  from covers short have "unspentBalanceFor exampleWallet ''0xABCD'' < 200" by blast
  moreover from covers first
  have "hd (fst (selectNotesForAmount exampleWallet ''0xABCD'' 200)) \<in> set (notes exampleWallet)
      \<and> \<not> spent (hd (fst (selectNotesForAmount exampleWallet ''0xABCD'' 200)))"
    by blast
  moreover from covers
  have "sum_list (map amount (fst (selectNotesForAmount exampleWallet ''0xABCD'' 200)))
       = snd (selectNotesForAmount exampleWallet ''0xABCD'' 200)"
    by blast
  ultimately show ?thesis using short picked by blast
qed

section \<open>Marking notes spent is idempotent and case-insensitive\<close>

lemma markFirst_idem: "markFirst a (markFirst a ns) = markFirst a ns"
  by (induction ns) auto

lemma markFirst_commute: "markFirst a (markFirst b ns) = markFirst b (markFirst a ns)"
  by (induction ns) auto

lemma markFirst_markNotesSpentIn:
  "markFirst a (markNotesSpentIn nfs ns) = markNotesSpentIn nfs (markFirst a ns)"
  unfolding markNotesSpentIn_def
  by (induction nfs arbitrary: ns) (simp_all add: markFirst_commute)

lemma markNotesSpentIn_Cons:
  "markNotesSpentIn (a # nfs) ns = markNotesSpentIn nfs (markFirst a ns)"
  by (simp add: markNotesSpentIn_def)

lemma markNotesSpentIn_idem:
  "markNotesSpentIn nfs (markNotesSpentIn nfs ns) = markNotesSpentIn nfs ns"
proof (induction nfs arbitrary: ns)
  case Nil
  show ?case by (simp add: markNotesSpentIn_def)
next
  case (Cons a nfs)
  have "markNotesSpentIn (a # nfs) (markNotesSpentIn (a # nfs) ns)
        = markNotesSpentIn nfs (markFirst a (markNotesSpentIn nfs (markFirst a ns)))"
    by (simp add: markNotesSpentIn_Cons)
  also have "\<dots> = markNotesSpentIn nfs (markNotesSpentIn nfs (markFirst a (markFirst a ns)))"
    by (simp add: markFirst_markNotesSpentIn)
  also have "\<dots> = markNotesSpentIn nfs (markFirst a ns)"
    by (simp add: markFirst_idem Cons.IH)
  finally show ?case by (simp add: markNotesSpentIn_Cons)
qed

lemma markFirst_lower: "toLowerCase a = toLowerCase b \<Longrightarrow> markFirst a ns = markFirst b ns"
  by (induction ns) auto

lemma markNotesSpentIn_lower:
  "map toLowerCase nfs = map toLowerCase nfs' \<Longrightarrow> markNotesSpentIn nfs ns = markNotesSpentIn nfs' ns"
proof (induction nfs arbitrary: nfs' ns)
  case Nil
  then show ?case by simp
next
  case (Cons a nfs)
  then obtain b rest where r: "nfs' = b # rest" "toLowerCase a = toLowerCase b"
      "map toLowerCase nfs = map toLowerCase rest"
    by (cases nfs') auto
  then show ?case
    using Cons.IH [of rest "markFirst b ns"] markFirst_lower [of a b ns]
    by (simp add: markNotesSpentIn_Cons)
qed

lemma markFirst_noop:
  "\<forall>n \<in> set ns. toLowerCase (nullifier n) = toLowerCase a \<longrightarrow> spent n \<Longrightarrow> markFirst a ns = ns"
  by (induction ns) auto

lemma markNotesSpentIn_noop:
  "\<forall>n \<in> set ns. toLowerCase (nullifier n) \<in> toLowerCase ` set nfs \<longrightarrow> spent n
     \<Longrightarrow> markNotesSpentIn nfs ns = ns"
proof (induction nfs arbitrary: ns)
  case Nil
  show ?case by (simp add: markNotesSpentIn_def)
next
  case (Cons a nfs)
  have "markFirst a ns = ns"
    using Cons.prems by (intro markFirst_noop) auto
  moreover have "markNotesSpentIn nfs ns = ns"
    using Cons.prems by (intro Cons.IH) auto
  ultimately show ?case by (simp add: markNotesSpentIn_Cons)
qed

lemma onlySpentFlips_refl: "onlySpentFlips ns ns"
  by (induction ns) auto

lemma onlySpentFlips_trans:
  "onlySpentFlips a b \<Longrightarrow> onlySpentFlips b c \<Longrightarrow> onlySpentFlips a c"
proof (induction a b arbitrary: c rule: onlySpentFlips.induct)
  case (1 new)
  then show ?case by simp
next
  case (2 n old)
  then show ?case by simp
next
  case (3 n old n' new)
  then show ?case by (cases c) auto
qed

lemma onlySpentFlips_append: "onlySpentFlips ns (ns @ added)"
  by (induction ns) auto

lemma onlySpentFlips_markFirst: "onlySpentFlips ns (markFirst a ns)"
  by (induction ns) (auto simp: onlySpentFlips_refl)

lemma onlySpentFlips_markNotesSpentIn: "onlySpentFlips ns (markNotesSpentIn nfs ns)"
proof (induction nfs arbitrary: ns)
  case Nil
  show ?case by (simp add: markNotesSpentIn_def onlySpentFlips_refl)
next
  case (Cons a nfs)
  show ?case
    using onlySpentFlips_trans [OF onlySpentFlips_markFirst [of ns a] Cons.IH [of "markFirst a ns"]]
    by (simp add: markNotesSpentIn_Cons)
qed

lemma onlySpentFlips_checkSpentNotes: "onlySpentFlips ns (snd (checkSpentNotes env i ns))"
  by (induction ns arbitrary: i) (auto simp: Let_def onlySpentFlips_refl split: sum.splits)

lemma markFirst_nullifiers: "map nullifier (markFirst a ns) = map nullifier ns"
  by (induction ns) auto

lemma markNotesSpentIn_nullifiers: "map nullifier (markNotesSpentIn nfs ns) = map nullifier ns"
  by (induction nfs arbitrary: ns) (simp_all add: markNotesSpentIn_def markFirst_nullifiers)

lemma markFirst_marks:
  "\<exists>n \<in> set ns. toLowerCase (nullifier n) = toLowerCase a \<Longrightarrow>
   \<exists>n' \<in> set (markFirst a ns). toLowerCase (nullifier n') = toLowerCase a \<and> spent n'"
  by (induction ns) auto

lemma onlySpentFlips_keeps_spent:
  "onlySpentFlips old new \<Longrightarrow> n \<in> set old \<Longrightarrow> spent n \<Longrightarrow> n \<in> set new"
  by (induction old new rule: onlySpentFlips.induct) auto

lemma markNotesSpentIn_append:
  "markNotesSpentIn (xs @ ys) ns = markNotesSpentIn ys (markNotesSpentIn xs ns)"
  by (simp add: markNotesSpentIn_def)

lemma markNotesSpentIn_marks:
  assumes "nf \<in> set nfs" and "\<exists>n \<in> set ns. toLowerCase (nullifier n) = toLowerCase nf"
  shows "\<exists>n' \<in> set (markNotesSpentIn nfs ns). toLowerCase (nullifier n') = toLowerCase nf \<and> spent n'"
proof -
  from assms(1) obtain pre post where sp: "nfs = pre @ nf # post"
    by (meson split_list)
  let ?mid = "markNotesSpentIn pre ns"
  have "map nullifier ?mid = map nullifier ns" by (rule markNotesSpentIn_nullifiers)
  then have "nullifier ` set ?mid = nullifier ` set ns" by (metis set_map)
  with assms(2) have "\<exists>n \<in> set ?mid. toLowerCase (nullifier n) = toLowerCase nf"
    by (metis (no_types, lifting) image_iff)
  then obtain n' where n': "n' \<in> set (markFirst nf ?mid)"
      "toLowerCase (nullifier n') = toLowerCase nf" "spent n'"
    using markFirst_marks by blast
  have "markNotesSpentIn nfs ns = markNotesSpentIn post (markFirst nf ?mid)"
    by (simp add: sp markNotesSpentIn_append markNotesSpentIn_Cons)
  moreover have "n' \<in> set (markNotesSpentIn post (markFirst nf ?mid))"
    using onlySpentFlips_keeps_spent [OF onlySpentFlips_markNotesSpentIn n'(1) n'(3)] .
  ultimately show ?thesis using n'(2,3) by auto
qed

text \<open>
  C5.  \<open>markNotesSpent\<close> is idempotent: for every wallet and list of nullifiers, marking
  twice with the same nullifiers leaves the state that marking once leaves.  Matching is
  case-insensitive on the nullifier string: two lists equal up to case mark the same
  notes, and a nullifier that some stored note has up to case ends up on a spent note.
  Marking again notes that are already spent changes nothing.
\<close>

theorem markNotesSpent_idempotent:
  "markNotesSpent (markNotesSpent w nfs) nfs = markNotesSpent w nfs
   \<and> (map toLowerCase nfs = map toLowerCase nfs' \<longrightarrow> markNotesSpent w nfs = markNotesSpent w nfs')
   \<and> (\<forall>nf \<in> set nfs. (\<exists>n \<in> set (notes w). toLowerCase (nullifier n) = toLowerCase nf)
         \<longrightarrow> (\<exists>n' \<in> set (notes (markNotesSpent w nfs)).
                toLowerCase (nullifier n') = toLowerCase nf \<and> spent n'))
   \<and> ((\<forall>n \<in> set (notes w). toLowerCase (nullifier n) \<in> toLowerCase ` set nfs \<longrightarrow> spent n)
         \<longrightarrow> markNotesSpent w nfs = w)"
proof -
  have p1: "markNotesSpent (markNotesSpent w nfs) nfs = markNotesSpent w nfs"
    by (simp add: markNotesSpent_def markNotesSpentIn_idem)
  have p2: "map toLowerCase nfs = map toLowerCase nfs' \<longrightarrow> markNotesSpent w nfs = markNotesSpent w nfs'"
    using markNotesSpentIn_lower [of nfs nfs' "notes w"] by (simp add: markNotesSpent_def)
  have p3: "\<forall>nf \<in> set nfs. (\<exists>n \<in> set (notes w). toLowerCase (nullifier n) = toLowerCase nf)
         \<longrightarrow> (\<exists>n' \<in> set (notes (markNotesSpent w nfs)).
                toLowerCase (nullifier n') = toLowerCase nf \<and> spent n')"
    using markNotesSpentIn_marks [of _ nfs "notes w"] by (simp add: markNotesSpent_def)
  have p4: "(\<forall>n \<in> set (notes w). toLowerCase (nullifier n) \<in> toLowerCase ` set nfs \<longrightarrow> spent n)
         \<longrightarrow> markNotesSpent w nfs = w"
    using markNotesSpentIn_noop [of "notes w" nfs] by (simp add: markNotesSpent_def)
  from p1 p2 p3 p4 show ?thesis by blast
qed

text \<open>
  On the example wallet: \<open>0xaa01\<close> marks the note stored as \<open>0xAA01\<close>, and marking
  the third note, which is spent already, gives the wallet back.
\<close>

theorem markNotesSpent_idempotent_witness:
  "markNotesSpent exampleWallet [''0xaa01'', ''0xAA02''] = markNotesSpent exampleWallet [''0xAA01'', ''0xaa02'']
   \<and> (\<exists>n' \<in> set (notes (markNotesSpent exampleWallet [''0xaa01'', ''0xAA02''])).
         toLowerCase (nullifier n') = toLowerCase ''0xaa01'' \<and> spent n')
   \<and> markNotesSpent exampleWallet [''0xAA03''] = exampleWallet
   \<and> map spent (notes (markNotesSpent exampleWallet [''0xaa01'', ''0xAA02''])) = [True, True, True, False]"
proof -
  note idem = markNotesSpent_idempotent [of exampleWallet "[''0xaa01'', ''0xAA02'']" "[''0xAA01'', ''0xaa02'']"]
  have h2: "map toLowerCase [''0xaa01'', ''0xAA02''] = map toLowerCase [''0xAA01'', ''0xaa02'']"
    by code_simp
  have h3: "\<exists>n \<in> set (notes exampleWallet). toLowerCase (nullifier n) = toLowerCase ''0xaa01''"
    by code_simp
  have h4: "\<forall>n \<in> set (notes exampleWallet).
      toLowerCase (nullifier n) \<in> toLowerCase ` set [''0xAA03''] \<longrightarrow> spent n"
    by code_simp
  have e: "map spent (notes (markNotesSpent exampleWallet [''0xaa01'', ''0xAA02''])) = [True, True, True, False]"
    by code_simp
  from idem h2 have "markNotesSpent exampleWallet [''0xaa01'', ''0xAA02'']
      = markNotesSpent exampleWallet [''0xAA01'', ''0xaa02'']" by blast
  moreover from idem h3 have "\<exists>n' \<in> set (notes (markNotesSpent exampleWallet [''0xaa01'', ''0xAA02''])).
         toLowerCase (nullifier n') = toLowerCase ''0xaa01'' \<and> spent n'" by simp
  moreover from markNotesSpent_idempotent [of exampleWallet "[''0xAA03'']" "[]"] h4
  have "markNotesSpent exampleWallet [''0xAA03''] = exampleWallet" by blast
  ultimately show ?thesis using e by blast
qed

section \<open>Notes are never deleted and only ever turn spent\<close>

lemma notes_executeDeposit:
  "notes (snd (executeDeposit env w tok amt c)) = notes w
   \<or> (\<exists>note. notes (snd (executeDeposit env w tok amt c)) = notes w @ [note])"
  by (simp add: executeDeposit_def Let_def split: sum.splits option.splits)

lemma notes_executeWithdraw:
  "notes (snd (executeWithdraw env w tok amt receiver ns)) = notes w
   \<or> notes (snd (executeWithdraw env w tok amt receiver ns))
        = markNotesSpentIn (map nullifier ns) (notes w)"
  by (simp add: executeWithdraw_def markNotesSpent_def Let_def split: sum.splits)

lemma executeTransaction_state:
  "snd (executeTransaction env w tok outputs) = w
   \<or> (\<exists>nfs. snd (executeTransaction env w tok outputs) = markNotesSpent w nfs)"
  by (auto simp: executeTransaction_def Let_def split: sum.splits)

lemma executeSwap_state: "snd (executeSwap env w a b) = w"
  by (simp add: executeSwap_def split: sum.splits)

lemma notes_syncWithChain:
  "notes (snd (syncWithChain env w)) = notes w
   \<or> notes (snd (syncWithChain env w)) = snd (checkSpentNotes env 0 (notes w))"
  by (simp add: syncWithChain_def syncAttempt_def Let_def split: sum.splits prod.splits)

lemma perform_onlySpentFlips: "onlySpentFlips (notes w) (notes (perform env op w))"
proof (cases op)
  case (Deposit tok amt c)
  then show ?thesis
    using notes_executeDeposit [of env w tok amt c]
    by (auto simp: onlySpentFlips_refl onlySpentFlips_append)
next
  case (Withdraw tok amt receiver ns)
  then show ?thesis
    using notes_executeWithdraw [of env w tok amt receiver ns]
    by (auto simp: onlySpentFlips_refl onlySpentFlips_markNotesSpentIn)
next
  case (Transfer tok outputs)
  then show ?thesis
    using executeTransaction_state [of env w tok outputs]
    by (auto simp: onlySpentFlips_refl onlySpentFlips_markNotesSpentIn markNotesSpent_def)
next
  case (Swap a b)
  then show ?thesis by (simp add: executeSwap_state onlySpentFlips_refl)
next
  case (MarkNotesSpent nfs)
  then show ?thesis by (simp add: markNotesSpent_def onlySpentFlips_markNotesSpentIn)
next
  case Sync
  then show ?thesis
    using notes_syncWithChain [of env w]
    by (auto simp: onlySpentFlips_refl onlySpentFlips_checkSpentNotes)
qed

lemma performAll_onlySpentFlips: "onlySpentFlips (notes w) (notes (performAll steps w))"
proof (induction steps arbitrary: w)
  case Nil
  show ?case by (simp add: onlySpentFlips_refl)
next
  case (Cons step steps)
  show ?case
    using onlySpentFlips_trans [OF perform_onlySpentFlips [of w "fst step" "snd step"]
                                   Cons.IH [of "perform (fst step) (snd step) w"]]
    by simp
qed

lemma onlySpentFlips_nth:
  "onlySpentFlips old new \<Longrightarrow>
     length old \<le> length new
     \<and> (\<forall>i < length old. new ! i = old ! i
            \<or> (\<not> spent (old ! i) \<and> new ! i = (old ! i)\<lparr>spent := True\<rparr>))"
proof (induction old new rule: onlySpentFlips.induct)
  case (1 new)
  then show ?case by simp
next
  case (2 n old)
  then show ?case by simp
next
  case (3 n old n' new)
  then show ?case by (auto simp: nth_Cons split: nat.splits)
qed

text \<open>
  C6.  Over every run of wallet operations (deposit, withdrawal, transfer, swap,
  \<open>markNotesSpent\<close>, sync), whatever the collaborators answer and whether an operation
  resolves or rejects: no note is deleted (the list never shrinks) and every note that was
  there stays at its position, either unchanged or with \<open>spent\<close> turned from false to
  true and nothing else changed; never from true back to false.
\<close>

theorem notes_only_flip_spent:
  "length (notes w) \<le> length (notes (performAll steps w))
   \<and> (\<forall>i < length (notes w).
         notes (performAll steps w) ! i = notes w ! i
         \<or> (\<not> spent (notes w ! i)
             \<and> notes (performAll steps w) ! i = (notes w ! i)\<lparr>spent := True\<rparr>))"
  using onlySpentFlips_nth [OF performAll_onlySpentFlips [of w steps]] .

text \<open>
  The example run (a deposit, a transfer of 60 and a sync) appends one note and turns
  \<open>spent\<close> on for the two notes that the transfer consumes.
\<close>

theorem notes_only_flip_spent_witness:
  "(0::nat) < length (notes exampleWallet)
   \<and> length (notes exampleWallet) \<le> length (notes (performAll exampleRun exampleWallet))
   \<and> (notes (performAll exampleRun exampleWallet) ! 0 = notes exampleWallet ! 0
       \<or> (\<not> spent (notes exampleWallet ! 0)
           \<and> notes (performAll exampleRun exampleWallet) ! 0 = (notes exampleWallet ! 0)\<lparr>spent := True\<rparr>))
   \<and> map spent (notes exampleWallet) = [False, False, True, False]
   \<and> map spent (notes (performAll exampleRun exampleWallet)) = [True, True, True, False, False]"
proof -
  have h: "(0::nat) < length (notes exampleWallet)" by code_simp
  have before: "map spent (notes exampleWallet) = [False, False, True, False]" by code_simp
  have after: "map spent (notes (performAll exampleRun exampleWallet)) = [True, True, True, False, False]"
    by code_simp
  from notes_only_flip_spent [of exampleWallet exampleRun] h
  show ?thesis using before after by blast
qed

section \<open>The sync watermark\<close>

lemma lastSyncedBlock_markNotesSpent: "lastSyncedBlock (markNotesSpent w nfs) = lastSyncedBlock w"
  by (simp add: markNotesSpent_def)

lemma lastSyncedBlock_perform_other:
  "op \<noteq> Sync \<Longrightarrow> lastSyncedBlock (perform env op w) = lastSyncedBlock w"
proof (cases op)
  case (Deposit tok amt c)
  then show ?thesis
    by (simp add: executeDeposit_def Let_def split: sum.splits option.splits)
next
  case (Withdraw tok amt receiver ns)
  then show ?thesis
    by (simp add: executeWithdraw_def Let_def lastSyncedBlock_markNotesSpent split: sum.splits)
next
  case (Transfer tok outputs)
  then show ?thesis
    using executeTransaction_state [of env w tok outputs]
    by (auto simp: lastSyncedBlock_markNotesSpent)
next
  case (Swap a b)
  then show ?thesis by (simp add: executeSwap_state)
next
  case (MarkNotesSpent nfs)
  then show ?thesis by (simp add: lastSyncedBlock_markNotesSpent)
next
  case Sync
  assume "op \<noteq> Sync"
  with Sync show ?thesis by simp
qed

lemma lastSyncedBlock_sync_events:
  "hasContractService w \<Longrightarrow> \<not> (notes w = [] \<and> lastSyncedBlock w = 0) \<Longrightarrow>
   fetchAccountUpdatedEvents env (lastSyncedBlock w) = Inr events \<Longrightarrow> events \<noteq> [] \<Longrightarrow>
   lastSyncedBlock (snd (syncWithChain env w)) = AccountUpdatedEvent.blockNumber (last events) + 1"
  by (auto simp: syncWithChain_def syncAttempt_def Let_def split: prod.splits)

lemma lastSyncedBlock_sync_cases:
  "lastSyncedBlock (snd (syncWithChain env w)) = lastSyncedBlock w
   \<or> (\<exists>events. fetchAccountUpdatedEvents env (lastSyncedBlock w) = Inr events \<and> events \<noteq> []
        \<and> lastSyncedBlock (snd (syncWithChain env w))
            = AccountUpdatedEvent.blockNumber (last events) + 1)"
  by (simp add: syncWithChain_def syncAttempt_def Let_def split: prod.splits sum.splits)

lemma lastSyncedBlock_sync_unchanged:
  "\<not> hasContractService w \<or> (notes w = [] \<and> lastSyncedBlock w = 0)
     \<or> fetchAccountUpdatedEvents env (lastSyncedBlock w) = Inr []
     \<or> (\<exists>msg. fetchAccountUpdatedEvents env (lastSyncedBlock w) = Inl msg) \<Longrightarrow>
   lastSyncedBlock (snd (syncWithChain env w)) = lastSyncedBlock w"
  by (auto simp: syncWithChain_def syncAttempt_def Let_def split: prod.splits sum.splits)

lemma lastSyncedBlock_perform_mono:
  assumes "honoursFromBlock env"
  shows "lastSyncedBlock w \<le> lastSyncedBlock (perform env op w)"
proof (cases "op = Sync")
  case False
  then show ?thesis by (simp add: lastSyncedBlock_perform_other)
next
  case True
  from lastSyncedBlock_sync_cases [of env w] show ?thesis
  proof
    assume "lastSyncedBlock (snd (syncWithChain env w)) = lastSyncedBlock w"
    with True show ?thesis by simp
  next
    assume "\<exists>events. fetchAccountUpdatedEvents env (lastSyncedBlock w) = Inr events \<and> events \<noteq> []
        \<and> lastSyncedBlock (snd (syncWithChain env w))
            = AccountUpdatedEvent.blockNumber (last events) + 1"
    then obtain events where
      f: "fetchAccountUpdatedEvents env (lastSyncedBlock w) = Inr events" and
      ne: "events \<noteq> []" and
      l: "lastSyncedBlock (snd (syncWithChain env w))
            = AccountUpdatedEvent.blockNumber (last events) + 1"
      by blast
    from ne have "last events \<in> set events" by simp
    with assms f have "lastSyncedBlock w \<le> AccountUpdatedEvent.blockNumber (last events)"
      unfolding honoursFromBlock_def by blast
    with l True show ?thesis by simp
  qed
qed

lemma lastSyncedBlock_performAll_mono:
  "\<forall>step \<in> set steps. honoursFromBlock (fst step) \<Longrightarrow>
     lastSyncedBlock w \<le> lastSyncedBlock (performAll steps w)"
proof (induction steps arbitrary: w)
  case Nil
  show ?case by simp
next
  case (Cons step steps)
  have "lastSyncedBlock w \<le> lastSyncedBlock (perform (fst step) (snd step) w)"
    using Cons.prems by (simp add: lastSyncedBlock_perform_mono)
  moreover have "lastSyncedBlock (perform (fst step) (snd step) w)
      \<le> lastSyncedBlock (performAll steps (perform (fst step) (snd step) w))"
    using Cons.prems by (intro Cons.IH) simp
  ultimately show ?case by simp
qed

lemma honoursFromBlock_onChain: "honoursFromBlock (onChain pc env)"
  by (auto simp: honoursFromBlock_def onChain_def getAccountUpdatedEvents_def getLogs_def
      actualFromBlock_def Let_def split: if_splits)

text \<open>
  The claim C7 as stated fails: a collaborator answering an event of block 5 to a wallet
  whose watermark is 100 moves the watermark back to 6.
\<close>

theorem lastSyncedBlock_decreases_counterexample:
  "lastSyncedBlock (perform staleCollaborators Sync exampleWallet) = 6
   \<and> lastSyncedBlock exampleWallet = 100
   \<and> lastSyncedBlock (perform staleCollaborators Sync exampleWallet) < lastSyncedBlock exampleWallet"
  by code_simp

text \<open>
  C7 (amended).  Deposit, withdrawal, transfer, swap and \<open>markNotesSpent\<close> never change
  \<open>lastSyncedBlock\<close>.  A sync that fetches a non-empty list of events sets it to one past
  the block number of the last returned event, for every collaborator response; it leaves
  it unchanged when no event is returned, when the query is rejected, without a contract
  service, and for a wallet with no notes and a watermark of zero.  Over every run of
  these six operations (deposit, withdrawal, transfer, swap, \<open>markNotesSpent\<close>, sync) the
  watermark never decreases, provided the collaborator honours \<open>fromBlock\<close> (returns no
  event of a block before the one asked for).  The statement is about these six
  operations only: \<open>initialize\<close> and \<open>clearStorage\<close> are not among them.
\<close>

theorem lastSyncedBlock_watermark:
  "(op \<noteq> Sync \<longrightarrow> lastSyncedBlock (perform env op w) = lastSyncedBlock w)
   \<and> (\<forall>events. hasContractService w \<and> \<not> (notes w = [] \<and> lastSyncedBlock w = 0)
          \<and> fetchAccountUpdatedEvents env (lastSyncedBlock w) = Inr events \<and> events \<noteq> []
        \<longrightarrow> lastSyncedBlock (perform env Sync w)
              = AccountUpdatedEvent.blockNumber (last events) + 1)
   \<and> (\<not> hasContractService w \<or> (notes w = [] \<and> lastSyncedBlock w = 0)
        \<or> fetchAccountUpdatedEvents env (lastSyncedBlock w) = Inr []
        \<or> (\<exists>msg. fetchAccountUpdatedEvents env (lastSyncedBlock w) = Inl msg)
        \<longrightarrow> lastSyncedBlock (perform env Sync w) = lastSyncedBlock w)
   \<and> ((\<forall>step \<in> set steps. honoursFromBlock (fst step))
        \<longrightarrow> lastSyncedBlock w \<le> lastSyncedBlock (performAll steps w))"
proof -
  have p1: "op \<noteq> Sync \<longrightarrow> lastSyncedBlock (perform env op w) = lastSyncedBlock w"
    by (simp add: lastSyncedBlock_perform_other)
  have p2: "\<forall>events. hasContractService w \<and> \<not> (notes w = [] \<and> lastSyncedBlock w = 0)
          \<and> fetchAccountUpdatedEvents env (lastSyncedBlock w) = Inr events \<and> events \<noteq> []
        \<longrightarrow> lastSyncedBlock (perform env Sync w)
              = AccountUpdatedEvent.blockNumber (last events) + 1"
    using lastSyncedBlock_sync_events [of w env] by simp
  have p3: "\<not> hasContractService w \<or> (notes w = [] \<and> lastSyncedBlock w = 0)
        \<or> fetchAccountUpdatedEvents env (lastSyncedBlock w) = Inr []
        \<or> (\<exists>msg. fetchAccountUpdatedEvents env (lastSyncedBlock w) = Inl msg)
        \<longrightarrow> lastSyncedBlock (perform env Sync w) = lastSyncedBlock w"
    using lastSyncedBlock_sync_unchanged [of w env] by simp
  have p4: "(\<forall>step \<in> set steps. honoursFromBlock (fst step))
        \<longrightarrow> lastSyncedBlock w \<le> lastSyncedBlock (performAll steps w)"
    using lastSyncedBlock_performAll_mono [of steps w] by blast
  from p1 p2 p3 p4 show ?thesis by blast
qed

lemma honoursFromBlock_quiet: "honoursFromBlock quietCollaborators"
  by (simp add: honoursFromBlock_def quietCollaborators_def)

text \<open>
  The contract service of the sources honours \<open>fromBlock\<close> on every chain, and so do the
  quiet collaborators; the example run moves the watermark from 100 to 15501.
\<close>

theorem lastSyncedBlock_watermark_witness:
  "honoursFromBlock quietCollaborators
   \<and> honoursFromBlock (onChain exampleChain steadyCollaborators)
   \<and> lastSyncedBlock exampleWallet = 100
   \<and> lastSyncedBlock (performAll exampleRun exampleWallet) = 15501
   \<and> lastSyncedBlock exampleWallet \<le> lastSyncedBlock (performAll exampleRun exampleWallet)
   \<and> lastSyncedBlock (perform quietCollaborators (Deposit ''0xabcd'' 25 exampleDeposit) exampleWallet)
       = lastSyncedBlock exampleWallet
   \<and> lastSyncedBlock (perform flakyCollaborators Sync exampleWallet) = 111
   \<and> lastSyncedBlock (perform quietCollaborators Sync exampleWallet) = lastSyncedBlock exampleWallet"
proof -
  have h: "\<forall>step \<in> set exampleRun. honoursFromBlock (fst step)"
    by (simp add: exampleRun_def honoursFromBlock_quiet honoursFromBlock_onChain)
  have before: "lastSyncedBlock exampleWallet = 100" by code_simp
  have after: "lastSyncedBlock (performAll exampleRun exampleWallet) = 15501" by code_simp
  note wm = lastSyncedBlock_watermark
  from wm [of "Deposit ''0xabcd'' 25 exampleDeposit" quietCollaborators exampleWallet exampleRun] h
  have mono: "lastSyncedBlock exampleWallet \<le> lastSyncedBlock (performAll exampleRun exampleWallet)"
    and dep: "lastSyncedBlock (perform quietCollaborators (Deposit ''0xabcd'' 25 exampleDeposit) exampleWallet)
       = lastSyncedBlock exampleWallet"
    by simp_all
  have cs: "hasContractService exampleWallet" by code_simp
  have ne: "\<not> (notes exampleWallet = [] \<and> lastSyncedBlock exampleWallet = 0)" by code_simp
  have f: "fetchAccountUpdatedEvents flakyCollaborators (lastSyncedBlock exampleWallet) = Inr twoEvents"
    by code_simp
  have tw: "twoEvents \<noteq> []" by code_simp
  have l: "AccountUpdatedEvent.blockNumber (last twoEvents) + 1 = 111" by code_simp
  from wm [of Sync flakyCollaborators exampleWallet "[]"] cs ne f tw
  have "lastSyncedBlock (perform flakyCollaborators Sync exampleWallet)
      = AccountUpdatedEvent.blockNumber (last twoEvents) + 1" by blast
  with l have sync: "lastSyncedBlock (perform flakyCollaborators Sync exampleWallet) = 111" by simp
  have q: "fetchAccountUpdatedEvents quietCollaborators (lastSyncedBlock exampleWallet) = Inr []"
    by code_simp
  from wm [of Sync quietCollaborators exampleWallet "[]"] q
  have none: "lastSyncedBlock (perform quietCollaborators Sync exampleWallet) = lastSyncedBlock exampleWallet"
    by blast
  from honoursFromBlock_quiet honoursFromBlock_onChain [of exampleChain steadyCollaborators]
       before after mono dep sync none
  show ?thesis by blast
qed

section \<open>A failed sync is swallowed and can be retried\<close>

lemma findLeafIndexFrom_absent:
  "0 \<le> i \<Longrightarrow> (findLeafIndexFrom i t c = -1) = (c \<notin> set t)"
  by (induction t arbitrary: i) auto

lemma findLeafIndex_absent: "(findLeafIndex t c = -1) = (c \<notin> set t)"
  by (simp add: findLeafIndex_def findLeafIndexFrom_absent)

lemma insertNewCommitments_present:
  "AccountUpdatedEvent.commitment ` set es \<subseteq> set t \<Longrightarrow> insertNewCommitments t es = t"
  by (induction es arbitrary: t) (auto simp: findLeafIndex_absent)

lemma insertNewCommitments_grows:
  "\<exists>added. insertNewCommitments t es = t @ added"
proof (induction es arbitrary: t)
  case Nil
  show ?case by simp
next
  case (Cons e es)
  show ?case
  proof (cases "findLeafIndex t (AccountUpdatedEvent.commitment e) = -1")
    case True
    from Cons.IH [of "insertLeaf t (AccountUpdatedEvent.commitment e)"]
    obtain added where
      "insertNewCommitments (insertLeaf t (AccountUpdatedEvent.commitment e)) es
         = insertLeaf t (AccountUpdatedEvent.commitment e) @ added"
      by blast
    with True have "insertNewCommitments t (e # es)
         = t @ (AccountUpdatedEvent.commitment e # added)"
      by (simp add: insertLeaf_def)
    then show ?thesis by blast
  next
    case False
    with Cons.IH [of t] show ?thesis by simp
  qed
qed

lemma insertNewCommitments_contains:
  "AccountUpdatedEvent.commitment ` set es \<subseteq> set (insertNewCommitments t es)"
proof (induction es arbitrary: t)
  case Nil
  show ?case by simp
next
  case (Cons e es)
  let ?t' = "if findLeafIndex t (AccountUpdatedEvent.commitment e) = -1
             then insertLeaf t (AccountUpdatedEvent.commitment e) else t"
  have "AccountUpdatedEvent.commitment e \<in> set ?t'"
    by (simp add: findLeafIndex_absent insertLeaf_def)
  moreover obtain added where "insertNewCommitments ?t' es = ?t' @ added"
    using insertNewCommitments_grows by blast
  ultimately have "AccountUpdatedEvent.commitment e \<in> set (insertNewCommitments ?t' es)"
    by simp
  with Cons.IH [of ?t'] show ?case by simp
qed

lemma insertNewCommitments_idem:
  "insertNewCommitments (insertNewCommitments t es) es = insertNewCommitments t es"
  by (rule insertNewCommitments_present) (rule insertNewCommitments_contains)

lemma checkSpentNotes_length: "length (snd (checkSpentNotes env i ns)) = length ns"
  by (induction ns arbitrary: i) (auto simp: Let_def split: sum.splits)

lemma checkSpentNotes_retry:
  assumes "\<forall>i nf b. isNullifierUsed env i nf = Inr b \<longrightarrow> isNullifierUsed env' i nf = Inr b"
  shows "checkSpentNotes env' i (snd (checkSpentNotes env i ns)) = checkSpentNotes env' i ns"
proof (induction ns arbitrary: i)
  case Nil
  show ?case by simp
next
  case (Cons n ns)
  show ?case
  proof (cases "spent n")
    case True
    then show ?thesis by (simp add: Let_def Cons.IH)
  next
    case False
    show ?thesis
    proof (cases "isNullifierUsed env i (nullifier n)")
      case (Inl msg)
      with False show ?thesis by simp
    next
      case (Inr b)
      with assms have "isNullifierUsed env' i (nullifier n) = Inr b" by blast
      with False Inr show ?thesis by (simp add: Let_def Cons.IH)
    qed
  qed
qed

lemma syncWithChain_resolves: "fst (syncWithChain env w) = Inr ()"
  by (simp add: syncWithChain_def split: prod.splits)

lemma syncWithChain_skipped:
  "\<not> hasContractService w \<or> (notes w = [] \<and> lastSyncedBlock w = 0)
     \<or> (\<exists>msg. fetchAccountUpdatedEvents env (lastSyncedBlock w) = Inl msg) \<Longrightarrow>
   snd (syncWithChain env w) = w"
  by (auto simp: syncWithChain_def syncAttempt_def split: prod.splits)

lemma syncWithChain_fetched:
  "hasContractService w \<Longrightarrow> \<not> (notes w = [] \<and> lastSyncedBlock w = 0) \<Longrightarrow>
   fetchAccountUpdatedEvents env (lastSyncedBlock w) = Inr events \<Longrightarrow>
   snd (syncWithChain env w)
     = w\<lparr>notes := snd (checkSpentNotes env 0 (notes w)),
         merkleTree := insertNewCommitments (merkleTree w) events,
         lastSyncedBlock := (if events \<noteq> [] then AccountUpdatedEvent.blockNumber (last events) + 1
                             else lastSyncedBlock w)\<rparr>"
  by (auto simp: syncWithChain_def syncAttempt_def Let_def split: prod.splits)

lemma syncWithChain_retry:
  assumes ev: "\<forall>fromBlock events. fetchAccountUpdatedEvents env fromBlock = Inr events
                  \<longrightarrow> fetchAccountUpdatedEvents env' fromBlock = Inr events"
      and nu: "\<forall>i nf b. isNullifierUsed env i nf = Inr b \<longrightarrow> isNullifierUsed env' i nf = Inr b"
      and quiet: "lastSyncedBlock (snd (syncWithChain env w)) \<noteq> lastSyncedBlock w
                  \<longrightarrow> fetchAccountUpdatedEvents env' (lastSyncedBlock (snd (syncWithChain env w))) = Inr []"
  shows "snd (syncWithChain env' (snd (syncWithChain env w))) = snd (syncWithChain env' w)"
proof (cases "\<not> hasContractService w \<or> (notes w = [] \<and> lastSyncedBlock w = 0)
     \<or> (\<exists>msg. fetchAccountUpdatedEvents env (lastSyncedBlock w) = Inl msg)")
  case True
  then have "snd (syncWithChain env w) = w" by (rule syncWithChain_skipped)
  then show ?thesis by simp
next
  case False
  then have cs: "hasContractService w" and ne: "\<not> (notes w = [] \<and> lastSyncedBlock w = 0)"
    by auto
  from False obtain events where f: "fetchAccountUpdatedEvents env (lastSyncedBlock w) = Inr events"
    by (cases "fetchAccountUpdatedEvents env (lastSyncedBlock w)") auto
  from ev f have f': "fetchAccountUpdatedEvents env' (lastSyncedBlock w) = Inr events" by blast
  define wm where "wm = (if events \<noteq> [] then AccountUpdatedEvent.blockNumber (last events) + 1
                             else lastSyncedBlock w)"
  define w1 where "w1 = snd (syncWithChain env w)"
  have w1: "w1 = w\<lparr>notes := snd (checkSpentNotes env 0 (notes w)),
         merkleTree := insertNewCommitments (merkleTree w) events,
         lastSyncedBlock := wm\<rparr>"
    unfolding w1_def wm_def by (rule syncWithChain_fetched [OF cs ne f])
  have direct: "snd (syncWithChain env' w) = w\<lparr>notes := snd (checkSpentNotes env' 0 (notes w)),
         merkleTree := insertNewCommitments (merkleTree w) events,
         lastSyncedBlock := wm\<rparr>"
    unfolding wm_def by (rule syncWithChain_fetched [OF cs ne f'])
  have cs1: "hasContractService w1" using cs w1 by simp
  have again: "snd (checkSpentNotes env' 0 (notes w1)) = snd (checkSpentNotes env' 0 (notes w))"
    using checkSpentNotes_retry [OF nu, of 0 "notes w"] w1 by simp
  have len: "(notes w1 = []) = (notes w = [])"
  proof -
    have "length (notes w1) = length (notes w)"
      using checkSpentNotes_length [of env 0 "notes w"] w1 by simp
    then show ?thesis by (simp only: length_0_conv [symmetric])
  qed
  show ?thesis
  proof (cases "notes w1 = [] \<and> lastSyncedBlock w1 = 0")
    case True
    then have "snd (syncWithChain env' w1) = w1" by (intro syncWithChain_skipped) simp
    moreover have "w1 = snd (syncWithChain env' w)"
      using True len w1 direct by simp
    ultimately show ?thesis unfolding w1_def by simp
  next
    case ne1: False
    show ?thesis
    proof (cases "wm = lastSyncedBlock w")
      case True
      then have "fetchAccountUpdatedEvents env' (lastSyncedBlock w1) = Inr events"
        using f' w1 by simp
      from syncWithChain_fetched [OF cs1 ne1 this]
      have "snd (syncWithChain env' w1) = w1\<lparr>notes := snd (checkSpentNotes env' 0 (notes w1)),
         merkleTree := insertNewCommitments (merkleTree w1) events,
         lastSyncedBlock := (if events \<noteq> [] then AccountUpdatedEvent.blockNumber (last events) + 1
                             else lastSyncedBlock w1)\<rparr>" .
      also have "\<dots> = w1\<lparr>notes := snd (checkSpentNotes env' 0 (notes w)),
         merkleTree := insertNewCommitments (merkleTree w) events,
         lastSyncedBlock := wm\<rparr>"
      proof -
        have "(if events \<noteq> [] then AccountUpdatedEvent.blockNumber (last events) + 1
               else lastSyncedBlock w1) = wm"
          using w1 by (simp add: wm_def)
        moreover have "insertNewCommitments (merkleTree w1) events
               = insertNewCommitments (merkleTree w) events"
          using w1 by (simp add: insertNewCommitments_idem)
        ultimately show ?thesis using again by simp
      qed
      also have "\<dots> = snd (syncWithChain env' w)"
        using w1 direct by simp
      finally show ?thesis unfolding w1_def .
    next
      case False
      then have "lastSyncedBlock (snd (syncWithChain env w)) \<noteq> lastSyncedBlock w"
        using w1 unfolding w1_def by simp
      with quiet have "fetchAccountUpdatedEvents env' (lastSyncedBlock w1) = Inr []"
        unfolding w1_def by blast
      from syncWithChain_fetched [OF cs1 ne1 this]
      have "snd (syncWithChain env' w1) = w1\<lparr>notes := snd (checkSpentNotes env' 0 (notes w1))\<rparr>"
        by simp
      also have "\<dots> = snd (syncWithChain env' w)"
        using again w1 direct by simp
      finally show ?thesis unfolding w1_def .
    qed
  qed
qed

lemma syncWithChain_tree_grows:
  "take (length (merkleTree w)) (merkleTree (snd (syncWithChain env w))) = merkleTree w"
proof -
  obtain added where "insertNewCommitments (merkleTree w) (case fetchAccountUpdatedEvents env (lastSyncedBlock w) of Inr es \<Rightarrow> es | Inl _ \<Rightarrow> [])
     = merkleTree w @ added" using insertNewCommitments_grows by blast
  then show ?thesis
    by (auto simp: syncWithChain_def syncAttempt_def Let_def split: prod.splits sum.splits)
qed

text \<open>
  C4.  \<open>syncWithChain\<close> never rejects: whatever the collaborators answer, it resolves.
  A rejected event query leaves the wallet as it was.  In every case the leaves already
  in the tree stay where they are, and the notes only have \<open>spent\<close> turned on.  The
  attempt can be retried: when the collaborators of the retry answer as those of the
  cut-short attempt did wherever these answered, and report no events after the new
  watermark if it moved, the retry ends in the state that a single attempt with the
  retry's collaborators reaches from the original wallet.
\<close>

theorem syncWithChain_swallows_errors:
  "fst (syncWithChain env w) = Inr ()
   \<and> (\<forall>msg. fetchAccountUpdatedEvents env (lastSyncedBlock w) = Inl msg
        \<longrightarrow> snd (syncWithChain env w) = w)
   \<and> take (length (merkleTree w)) (merkleTree (snd (syncWithChain env w))) = merkleTree w
   \<and> onlySpentFlips (notes w) (notes (snd (syncWithChain env w)))
   \<and> ((\<forall>fromBlock events. fetchAccountUpdatedEvents env fromBlock = Inr events
                  \<longrightarrow> fetchAccountUpdatedEvents env' fromBlock = Inr events)
        \<and> (\<forall>i nf b. isNullifierUsed env i nf = Inr b \<longrightarrow> isNullifierUsed env' i nf = Inr b)
        \<and> (lastSyncedBlock (snd (syncWithChain env w)) \<noteq> lastSyncedBlock w
             \<longrightarrow> fetchAccountUpdatedEvents env' (lastSyncedBlock (snd (syncWithChain env w))) = Inr [])
       \<longrightarrow> snd (syncWithChain env' (snd (syncWithChain env w))) = snd (syncWithChain env' w))"
proof -
  have p1: "fst (syncWithChain env w) = Inr ()" by (rule syncWithChain_resolves)
  have p2: "\<forall>msg. fetchAccountUpdatedEvents env (lastSyncedBlock w) = Inl msg
        \<longrightarrow> snd (syncWithChain env w) = w"
    using syncWithChain_skipped [of w env] by blast
  have p3: "take (length (merkleTree w)) (merkleTree (snd (syncWithChain env w))) = merkleTree w"
    by (rule syncWithChain_tree_grows)
  have p4: "onlySpentFlips (notes w) (notes (snd (syncWithChain env w)))"
    using perform_onlySpentFlips [of w env Sync] by simp
  have p5: "(\<forall>fromBlock events. fetchAccountUpdatedEvents env fromBlock = Inr events
                  \<longrightarrow> fetchAccountUpdatedEvents env' fromBlock = Inr events)
        \<and> (\<forall>i nf b. isNullifierUsed env i nf = Inr b \<longrightarrow> isNullifierUsed env' i nf = Inr b)
        \<and> (lastSyncedBlock (snd (syncWithChain env w)) \<noteq> lastSyncedBlock w
             \<longrightarrow> fetchAccountUpdatedEvents env' (lastSyncedBlock (snd (syncWithChain env w))) = Inr [])
       \<longrightarrow> snd (syncWithChain env' (snd (syncWithChain env w))) = snd (syncWithChain env' w)"
    using syncWithChain_retry [of env env' w] by blast
  from p1 p2 p3 p4 p5 show ?thesis by blast
qed

text \<open>
  With the nullifier query of the second note rejected, the attempt resolves with the new
  leaf appended, the watermark at 111 and the first note flagged; the retry flags the
  second note and ends where an uninterrupted sync ends.
\<close>

theorem syncWithChain_swallows_errors_witness:
  "isNullifierUsed flakyCollaborators 1 ''0xaa02'' = Inl ''request timed out''
   \<and> fst (syncWithChain flakyCollaborators exampleWallet) = Inr ()
   \<and> map spent (notes (snd (syncWithChain flakyCollaborators exampleWallet))) = [True, False, True, False]
   \<and> merkleTree (snd (syncWithChain flakyCollaborators exampleWallet))
       = [''0xc1'', ''0xc2'', ''0xc3'', ''0xc4'', ''0xc5'']
   \<and> snd (syncWithChain steadyCollaborators (snd (syncWithChain flakyCollaborators exampleWallet)))
       = snd (syncWithChain steadyCollaborators exampleWallet)
   \<and> map spent (notes (snd (syncWithChain steadyCollaborators exampleWallet))) = [True, True, True, False]
   \<and> snd (syncWithChain (quietCollaborators\<lparr>fetchAccountUpdatedEvents := (\<lambda>fromBlock. Inl ''rpc down'')\<rparr>)
            exampleWallet) = exampleWallet"
proof -
  note sw = syncWithChain_swallows_errors
  have fails: "isNullifierUsed flakyCollaborators 1 ''0xaa02'' = Inl ''request timed out''"
    by code_simp
  have partial: "map spent (notes (snd (syncWithChain flakyCollaborators exampleWallet))) = [True, False, True, False]"
    by code_simp
  have tree: "merkleTree (snd (syncWithChain flakyCollaborators exampleWallet))
       = [''0xc1'', ''0xc2'', ''0xc3'', ''0xc4'', ''0xc5'']"
    by code_simp
  have full: "map spent (notes (snd (syncWithChain steadyCollaborators exampleWallet))) = [True, True, True, False]"
    by code_simp
  have h1: "\<forall>fromBlock events. fetchAccountUpdatedEvents flakyCollaborators fromBlock = Inr events
                  \<longrightarrow> fetchAccountUpdatedEvents steadyCollaborators fromBlock = Inr events"
    by (simp add: flakyCollaborators_def steadyCollaborators_def)
  have h2: "\<forall>i nf b. isNullifierUsed flakyCollaborators i nf = Inr b
                  \<longrightarrow> isNullifierUsed steadyCollaborators i nf = Inr b"
    by (auto simp: flakyCollaborators_def steadyCollaborators_def split: if_splits)
  have wm: "lastSyncedBlock (snd (syncWithChain flakyCollaborators exampleWallet)) = 111"
    by code_simp
  have h3: "lastSyncedBlock (snd (syncWithChain flakyCollaborators exampleWallet)) \<noteq> lastSyncedBlock exampleWallet
             \<longrightarrow> fetchAccountUpdatedEvents steadyCollaborators
                   (lastSyncedBlock (snd (syncWithChain flakyCollaborators exampleWallet))) = Inr []"
    by (simp add: wm steadyCollaborators_def)
  from sw [of flakyCollaborators exampleWallet steadyCollaborators] h1 h2 h3
  have retry: "snd (syncWithChain steadyCollaborators (snd (syncWithChain flakyCollaborators exampleWallet)))
       = snd (syncWithChain steadyCollaborators exampleWallet)"
    and res: "fst (syncWithChain flakyCollaborators exampleWallet) = Inr ()"
    by blast+
  have down: "fetchAccountUpdatedEvents
       (quietCollaborators\<lparr>fetchAccountUpdatedEvents := (\<lambda>fromBlock. Inl ''rpc down'')\<rparr>)
       (lastSyncedBlock exampleWallet) = Inl ''rpc down''"
    by simp
  from sw [of "quietCollaborators\<lparr>fetchAccountUpdatedEvents := (\<lambda>fromBlock. Inl ''rpc down'')\<rparr>"
              exampleWallet quietCollaborators] down
  have same: "snd (syncWithChain (quietCollaborators\<lparr>fetchAccountUpdatedEvents := (\<lambda>fromBlock. Inl ''rpc down'')\<rparr>)
            exampleWallet) = exampleWallet"
    by blast
  from fails res partial tree retry full same show ?thesis by blast
qed

section \<open>Transfers: insufficient balance and proof failure\<close>

lemma foldl_amounts:
  "foldl (\<lambda>s out. s + TransactionOutput.amount out) a outputs
     = a + sum_list (map TransactionOutput.amount outputs)"
  by (induction outputs arbitrary: a) simp_all

lemma changeOutput_not_insufficient: "changeOutput env w change \<noteq> Inl InsufficientBalance"
  by (simp add: changeOutput_def split: option.splits sum.splits)

lemma prepareTransaction_insufficient:
  "(prepareTransaction env w tok outputs = Inl InsufficientBalance)
     = (hasContractService w
        \<and> snd (selectNotesForAmount w tok (sum_list (map TransactionOutput.amount outputs)))
            < sum_list (map TransactionOutput.amount outputs))"
  using changeOutput_not_insufficient
  by (auto simp: prepareTransaction_def Let_def foldl_amounts split: sum.splits)

lemma executeTransaction_insufficient:
  "(fst (executeTransaction env w tok outputs) = Inl InsufficientBalance)
     = (prepareTransaction env w tok outputs = Inl InsufficientBalance)"
  by (auto simp: executeTransaction_def Let_def split: sum.splits)

lemma executeTransaction_error_state:
  "fst (executeTransaction env w tok outputs) = Inl e \<Longrightarrow>
     snd (executeTransaction env w tok outputs) = w"
  by (auto simp: executeTransaction_def Let_def split: sum.splits if_splits)

lemma sum_list_nonneg_int: "\<forall>x \<in> set xs. (0::int) \<le> f x \<Longrightarrow> 0 \<le> sum_list (map f xs)"
  by (induction xs) auto

lemma selection_short_iff:
  assumes "\<forall>n \<in> set (getNotesForToken w tok). 0 \<le> amount n"
  shows "(snd (selectNotesForAmount w tok t) < t) = (unspentBalanceFor w tok < t)"
proof -
  obtain left where
    a: "sortByAmountDesc (getNotesForToken w tok) = fst (selectNotesForAmount w tok t) @ left" and
    b: "snd (selectNotesForAmount w tok t) = sum_list (map amount (fst (selectNotesForAmount w tok t)))" and
    c: "snd (selectNotesForAmount w tok t) < t \<longrightarrow> left = []"
    using selectNotesForAmount_prefix by blast
  have bal: "unspentBalanceFor w tok
      = sum_list (map amount (fst (selectNotesForAmount w tok t))) + sum_list (map amount left)"
    using sum_amount_sortByAmountDesc [of "getNotesForToken w tok"] a
    by (simp add: unspentBalanceFor_def)
  have "set left \<subseteq> set (sortByAmountDesc (getNotesForToken w tok))"
    using a by simp
  then have "set left \<subseteq> set (getNotesForToken w tok)"
    by (simp add: sortByAmountDesc_def)
  with assms have "\<forall>n \<in> set left. 0 \<le> amount n" by blast
  then have nonneg: "0 \<le> sum_list (map amount left)" by (rule sum_list_nonneg_int)
  show ?thesis
  proof
    assume "snd (selectNotesForAmount w tok t) < t"
    with c bal b show "unspentBalanceFor w tok < t" by simp
  next
    assume "unspentBalanceFor w tok < t"
    with bal b nonneg show "snd (selectNotesForAmount w tok t) < t" by simp
  qed
qed

lemma executeTransaction_proof_failure:
  "prepareTransaction env w tok outputs = Inr (ins, req) \<Longrightarrow>
   \<not> success (requestTransactionProof env req) \<Longrightarrow>
   executeTransaction env w tok outputs
     = (Inl (ProofGenerationFailed (proofErrorMessage (requestTransactionProof env req))), w)"
  by (simp add: executeTransaction_def Let_def)

lemma executeTransaction_success:
  "fst (executeTransaction env w tok outputs) = Inr txHash \<Longrightarrow>
   \<exists>ins req bn. prepareTransaction env w tok outputs = Inr (ins, req)
      \<and> success (requestTransactionProof env req)
      \<and> transact env (publicInputs (requestTransactionProof env req))
                      (proofBytes (requestTransactionProof env req)) = Inr txHash
      \<and> waitForTransaction env txHash = Inr (True, bn)
      \<and> snd (executeTransaction env w tok outputs) = markNotesSpent w (map nullifier ins)"
  by (auto simp: executeTransaction_def Let_def split: sum.splits if_splits)

lemma markFirst_length: "length (markFirst a ns) = length ns"
  by (induction ns) auto

lemma markNotesSpentIn_length: "length (markNotesSpentIn nfs ns) = length ns"
  by (induction nfs arbitrary: ns) (simp_all add: markNotesSpentIn_def markFirst_length)

lemma executeTransaction_keeps:
  "merkleTree (snd (executeTransaction env w tok outputs)) = merkleTree w
   \<and> lastSyncedBlock (snd (executeTransaction env w tok outputs)) = lastSyncedBlock w
   \<and> length (notes (snd (executeTransaction env w tok outputs))) = length (notes w)"
  using executeTransaction_state [of env w tok outputs]
  by (auto simp: markNotesSpent_def markNotesSpentIn_length)

text \<open>
  The claim C2 as stated fails at two wallets.  Without a contract service the transfer
  rejects with \<open>Contract service not initialized\<close> although the balance is short; and
  with notes of 5 and -3 units the balance, 2, is below the 4 requested, but the first
  note alone covers the request and the transfer goes through.
\<close>

theorem executeTransaction_insufficient_counterexample:
  "unspentBalanceFor freshWallet ''0xabcd'' < sum_list (map TransactionOutput.amount [payTo 60])
   \<and> executeTransaction quietCollaborators freshWallet ''0xabcd'' [payTo 60]
       = (Inl ContractServiceNotInitialized, freshWallet)
   \<and> unspentBalanceFor debtWallet ''0xabcd'' < sum_list (map TransactionOutput.amount [payTo 4])
   \<and> fst (executeTransaction quietCollaborators debtWallet ''0xabcd'' [payTo 4]) = Inr ''0xd2''"
  by code_simp

text \<open>
  C2 (amended).  For a wallet whose unspent notes of the token have no negative amount,
  \<open>executeTransaction\<close> rejects with the insufficient-balance error exactly when the
  contract service is initialised and the wallet's unspent total for the token is less
  than the sum of the requested output amounts; when it does, the wallet state is
  unchanged.
\<close>

theorem executeTransaction_insufficient_balance:
  assumes "\<forall>n \<in> set (getNotesForToken w tok). 0 \<le> amount n"
  shows "(fst (executeTransaction env w tok outputs) = Inl InsufficientBalance)
           = (hasContractService w
              \<and> unspentBalanceFor w tok < sum_list (map TransactionOutput.amount outputs))
         \<and> (fst (executeTransaction env w tok outputs) = Inl InsufficientBalance
              \<longrightarrow> snd (executeTransaction env w tok outputs) = w)"
proof -
  have "(fst (executeTransaction env w tok outputs) = Inl InsufficientBalance)
           = (hasContractService w
              \<and> unspentBalanceFor w tok < sum_list (map TransactionOutput.amount outputs))"
    using selection_short_iff [OF assms, of "sum_list (map TransactionOutput.amount outputs)"]
    by (simp add: executeTransaction_insufficient prepareTransaction_insufficient)
  moreover have "fst (executeTransaction env w tok outputs) = Inl InsufficientBalance
              \<longrightarrow> snd (executeTransaction env w tok outputs) = w"
    using executeTransaction_error_state [of env w tok outputs InsufficientBalance] by blast
  ultimately show ?thesis by blast
qed

text \<open>
  The example wallet, holding 80, rejects a transfer of 560 with the wallet untouched and
  does not reject one of 60 for lack of balance.
\<close>

theorem executeTransaction_insufficient_balance_witness:
  "map amount (getNotesForToken exampleWallet ''0xABCD'') = [30, 50]
   \<and> unspentBalanceFor exampleWallet ''0xABCD'' = 80
   \<and> executeTransaction quietCollaborators exampleWallet ''0xABCD'' [payTo 60, payTo 500]
       = (Inl InsufficientBalance, exampleWallet)
   \<and> fst (executeTransaction quietCollaborators exampleWallet ''0xABCD'' [payTo 60])
       \<noteq> Inl InsufficientBalance"
proof -
  have h: "\<forall>n \<in> set (getNotesForToken exampleWallet ''0xABCD''). 0 \<le> amount n"
    by code_simp
  have bal: "unspentBalanceFor exampleWallet ''0xABCD'' = 80" by code_simp
  have cs: "hasContractService exampleWallet" by code_simp
  have big: "sum_list (map TransactionOutput.amount [payTo 60, payTo 500]) = 560" by code_simp
  have small: "sum_list (map TransactionOutput.amount [payTo 60]) = 60" by code_simp
  note ib = executeTransaction_insufficient_balance [OF h]
  from ib [of quietCollaborators "[payTo 60, payTo 500]"] bal cs big
  have "fst (executeTransaction quietCollaborators exampleWallet ''0xABCD'' [payTo 60, payTo 500])
          = Inl InsufficientBalance
        \<and> snd (executeTransaction quietCollaborators exampleWallet ''0xABCD'' [payTo 60, payTo 500])
          = exampleWallet"
    by simp
  then have fail: "executeTransaction quietCollaborators exampleWallet ''0xABCD'' [payTo 60, payTo 500]
       = (Inl InsufficientBalance, exampleWallet)"
    by (simp add: prod_eq_iff)
  from ib [of quietCollaborators "[payTo 60]"] bal cs small
  have ok: "fst (executeTransaction quietCollaborators exampleWallet ''0xABCD'' [payTo 60])
       \<noteq> Inl InsufficientBalance"
    by simp
  have amounts: "map amount (getNotesForToken exampleWallet ''0xABCD'') = [30, 50]"
    by code_simp
  from amounts bal fail ok show ?thesis by blast
qed

text \<open>
  C3.  When the prover answers the request of \<open>executeTransaction\<close> with a non-success
  response, the operation rejects and the wallet state is the one before the call: no note
  marked spent, no leaf inserted, no note appended, \<open>lastSyncedBlock\<close> unchanged.  More
  generally every rejection leaves the state untouched, and the input nullifiers are
  marked spent only when the proof succeeded, the transaction was submitted and its
  confirmation reported success.  The tree, the watermark and the number of notes are
  never changed by a transfer.
\<close>

theorem executeTransaction_aborts_on_proof_failure:
  "(\<forall>prepared. prepareTransaction env w tok outputs = Inr prepared
        \<and> \<not> success (requestTransactionProof env (snd prepared))
      \<longrightarrow> executeTransaction env w tok outputs
            = (Inl (ProofGenerationFailed
                     (proofErrorMessage (requestTransactionProof env (snd prepared)))), w))
   \<and> (\<forall>e. fst (executeTransaction env w tok outputs) = Inl e
        \<longrightarrow> snd (executeTransaction env w tok outputs) = w)
   \<and> (\<forall>txHash. fst (executeTransaction env w tok outputs) = Inr txHash
        \<longrightarrow> (\<exists>ins req bn. prepareTransaction env w tok outputs = Inr (ins, req)
               \<and> success (requestTransactionProof env req)
               \<and> transact env (publicInputs (requestTransactionProof env req))
                      (proofBytes (requestTransactionProof env req)) = Inr txHash
               \<and> waitForTransaction env txHash = Inr (True, bn)
               \<and> snd (executeTransaction env w tok outputs)
                   = markNotesSpent w (map nullifier ins)))
   \<and> merkleTree (snd (executeTransaction env w tok outputs)) = merkleTree w
   \<and> lastSyncedBlock (snd (executeTransaction env w tok outputs)) = lastSyncedBlock w
   \<and> length (notes (snd (executeTransaction env w tok outputs))) = length (notes w)"
proof -
  have p1: "\<forall>prepared. prepareTransaction env w tok outputs = Inr prepared
        \<and> \<not> success (requestTransactionProof env (snd prepared))
      \<longrightarrow> executeTransaction env w tok outputs
            = (Inl (ProofGenerationFailed
                     (proofErrorMessage (requestTransactionProof env (snd prepared)))), w)"
    using executeTransaction_proof_failure [of env w tok outputs] by (metis prod.collapse)
  have p2: "\<forall>e. fst (executeTransaction env w tok outputs) = Inl e
        \<longrightarrow> snd (executeTransaction env w tok outputs) = w"
    using executeTransaction_error_state [of env w tok outputs] by blast
  have p3: "\<forall>txHash. fst (executeTransaction env w tok outputs) = Inr txHash
        \<longrightarrow> (\<exists>ins req bn. prepareTransaction env w tok outputs = Inr (ins, req)
               \<and> success (requestTransactionProof env req)
               \<and> transact env (publicInputs (requestTransactionProof env req))
                      (proofBytes (requestTransactionProof env req)) = Inr txHash
               \<and> waitForTransaction env txHash = Inr (True, bn)
               \<and> snd (executeTransaction env w tok outputs)
                   = markNotesSpent w (map nullifier ins))"
    using executeTransaction_success [of env w tok outputs] by blast
  from p1 p2 p3 executeTransaction_keeps [of env w tok outputs] show ?thesis by blast
qed

text \<open>
  The same transfer of 60 with a failing and with a succeeding prover.
\<close>

theorem executeTransaction_aborts_on_proof_failure_witness:
  "\<not> isl (prepareTransaction failingProver exampleWallet ''0xABCD'' [payTo 60])
   \<and> executeTransaction failingProver exampleWallet ''0xABCD'' [payTo 60]
       = (Inl (ProofGenerationFailed ''Prover API error: 500''), exampleWallet)
   \<and> fst (executeTransaction quietCollaborators exampleWallet ''0xABCD'' [payTo 60]) = Inr ''0xd2''
   \<and> waitForTransaction quietCollaborators ''0xd2'' = Inr (True, 120)
   \<and> map spent (notes (snd (executeTransaction quietCollaborators exampleWallet ''0xABCD'' [payTo 60])))
       = [True, True, True, False]"
proof -
  note ab = executeTransaction_aborts_on_proof_failure
  have ready: "\<not> isl (prepareTransaction failingProver exampleWallet ''0xABCD'' [payTo 60])"
    by code_simp
  then obtain prepared where
    p: "prepareTransaction failingProver exampleWallet ''0xABCD'' [payTo 60] = Inr prepared"
    by (cases "prepareTransaction failingProver exampleWallet ''0xABCD'' [payTo 60]") auto
  have bad: "\<not> success (requestTransactionProof failingProver (snd prepared))"
    by (simp add: failingProver_def)
  have msg: "proofErrorMessage (requestTransactionProof failingProver (snd prepared))
      = ''Prover API error: 500''"
    by (simp add: failingProver_def proofErrorMessage_def)
  from ab [of failingProver exampleWallet "''0xABCD''" "[payTo 60]"] p bad
  have "executeTransaction failingProver exampleWallet ''0xABCD'' [payTo 60]
       = (Inl (ProofGenerationFailed
                (proofErrorMessage (requestTransactionProof failingProver (snd prepared)))),
          exampleWallet)"
    by blast
  with msg have aborted: "executeTransaction failingProver exampleWallet ''0xABCD'' [payTo 60]
       = (Inl (ProofGenerationFailed ''Prover API error: 500''), exampleWallet)"
    by simp
  have sent: "fst (executeTransaction quietCollaborators exampleWallet ''0xABCD'' [payTo 60]) = Inr ''0xd2''"
    by code_simp
  have marked: "map spent (notes (snd (executeTransaction quietCollaborators exampleWallet ''0xABCD'' [payTo 60])))
       = [True, True, True, False]"
    by code_simp
  from ab [of quietCollaborators exampleWallet "''0xABCD''" "[payTo 60]"] sent
  obtain bn where "waitForTransaction quietCollaborators ''0xd2'' = Inr (True, bn)"
    by blast
  moreover have "waitForTransaction quietCollaborators ''0xd2'' = Inr (True, 120)"
    by (simp add: quietCollaborators_def)
  ultimately show ?thesis using ready aborted sent marked by blast
qed

section \<open>Key derivation from a signature\<close>

lemma bigintRem_mod: "0 \<le> a \<Longrightarrow> 0 < b \<Longrightarrow> bigintRem a b = a mod b"
  by (cases "a = 0") (simp_all add: bigintRem_def)

lemma bytesToBigInt_snoc:
  "bytesToBigInt (bs @ [b]) = push_bit 8 (bytesToBigInt bs) OR uint b"
  by (simp add: bytesToBigInt_def)

lemma bytesToBigInt_nonneg: "0 \<le> bytesToBigInt bs"
  by (induction bs rule: rev_induct) (simp_all add: bytesToBigInt_snoc, simp add: bytesToBigInt_def)

lemma low_byte: "uint (word_of_int (v AND 255) :: byte) = take_bit 8 v"
proof -
  have "(255 :: int) = mask 8" by (simp add: mask_eq_exp_minus_1)
  then have "v AND 255 = take_bit 8 v" by (simp add: take_bit_eq_mask)
  then show ?thesis by (simp add: uint_word_of_int_eq)
qed

lemma glue_bytes:
  "push_bit 8 (take_bit (8 * i) (drop_bit 8 (v :: int))) OR take_bit 8 v = take_bit (8 * Suc i) v"
  by (rule bit_eqI) (auto simp: bit_simps)

lemma bigIntToBytesLoop_spec:
  "i \<le> length bytes \<Longrightarrow>
     length (bigIntToBytesLoop i v bytes) = length bytes
     \<and> drop i (bigIntToBytesLoop i v bytes) = drop i bytes
     \<and> bytesToBigInt (take i (bigIntToBytesLoop i v bytes)) = take_bit (8 * i) v"
proof (induction i arbitrary: v bytes)
  case 0
  show ?case by (simp add: bytesToBigInt_def)
next
  case (Suc i)
  let ?x = "word_of_int (v AND 255) :: byte"
  let ?R = "bigIntToBytesLoop i (drop_bit 8 v) (bytes[i := ?x])"
  from Suc.prems have il: "i < length bytes" by simp
  then have "i \<le> length (bytes[i := ?x])" by simp
  from Suc.IH [OF this, of "drop_bit 8 v"]
  have len: "length ?R = length bytes"
    and dr: "drop i ?R = drop i (bytes[i := ?x])"
    and val: "bytesToBigInt (take i ?R) = take_bit (8 * i) (drop_bit 8 v)"
    by simp_all
  have dr': "drop i ?R = ?x # drop (Suc i) bytes"
    using dr il by (simp add: drop_update_cancel Cons_nth_drop_Suc [symmetric] upd_conv_take_nth_drop)
  then have nth: "?R ! i = ?x"
    using il len by (metis nth_via_drop)
  have tk: "take (Suc i) ?R = take i ?R @ [?x]"
    using il len nth by (simp add: take_Suc_conv_app_nth)
  have "drop (Suc i) ?R = drop (Suc i) bytes"
    using dr' by (metis drop_Suc list.sel(3) tl_drop)
  moreover have "bytesToBigInt (take (Suc i) ?R) = take_bit (8 * Suc i) v"
    using tk val by (simp only: bytesToBigInt_snoc low_byte glue_bytes)
  ultimately show ?case using len by simp
qed

lemma bigIntToBytes_length: "length (bigIntToBytes v) = 32"
  using bigIntToBytesLoop_spec [of 32 "replicate 32 0" v] by (simp add: bigIntToBytes_def)

lemma bytesToBigInt_bigIntToBytes:
  "0 \<le> v \<Longrightarrow> v < 2 ^ 256 \<Longrightarrow> bytesToBigInt (bigIntToBytes v) = v"
proof -
  assume v: "0 \<le> v" "v < 2 ^ 256"
  let ?R = "bigIntToBytesLoop 32 v (replicate 32 0)"
  have "32 \<le> length (replicate 32 (0 :: byte))" by simp
  note spec = bigIntToBytesLoop_spec [OF this, of v]
  have len: "length ?R = 32"
    using spec [THEN conjunct1] by simp
  have val: "bytesToBigInt (take 32 ?R) = take_bit (8 * 32) v"
    by (rule spec [THEN conjunct2, THEN conjunct2])
  from len have "take 32 ?R = ?R" by simp
  with val have "bytesToBigInt ?R = take_bit (8 * 32) v" by simp
  moreover have "take_bit (8 * 32) v = v"
    using v by (simp add: take_bit_int_eq_self)
  ultimately show ?thesis by (simp add: bigIntToBytes_def)
qed

lemma secp256k1_n_bounds: "0 < secp256k1_n" "secp256k1_n < 2 ^ 256"
  by (simp_all add: secp256k1_n_def)

lemma getPublicKey_bigIntToBytes:
  "0 < k \<Longrightarrow> k < secp256k1_n \<Longrightarrow> getPublicKey mulG (bigIntToBytes k) = Inr (mulG k)"
proof -
  assume k: "0 < k" "k < secp256k1_n"
  then have "k < 2 ^ 256" using secp256k1_n_bounds(2) by linarith
  with k have "bytesToBigInt (bigIntToBytes k) = k"
    by (simp add: bytesToBigInt_bigIntToBytes)
  with k show ?thesis
    by (simp add: getPublicKey_def bigIntToBytes_length)
qed

text \<open>
  C8.  For every signature and purpose, with \<open>s\<close> the number read big-endian from
  \<open>keccak256(keccak256(signature \<parallel> purpose))\<close> and reduced modulo the group order of
  secp256k1: the derivation fails exactly when \<open>s = 0\<close>, with the zero-key error;
  otherwise it returns a 32-byte private key that encodes \<open>s\<close> and the public key
  \<open>s\<cdot>G\<close>.
\<close>

theorem deriveKeyPairFromSignature_scalar:
  "(deriveKeyPairFromSignature keccak256 mulG sigBytes purpose = Inl ZeroPrivateKey)
     = (bytesToBigInt (keccak256 (keccak256 (sigBytes @ purposeBytes purpose))) mod secp256k1_n = 0)
   \<and> isl (deriveKeyPairFromSignature keccak256 mulG sigBytes purpose)
     = (bytesToBigInt (keccak256 (keccak256 (sigBytes @ purposeBytes purpose))) mod secp256k1_n = 0)
   \<and> (bytesToBigInt (keccak256 (keccak256 (sigBytes @ purposeBytes purpose))) mod secp256k1_n \<noteq> 0
       \<longrightarrow> (\<exists>kp. deriveKeyPairFromSignature keccak256 mulG sigBytes purpose = Inr kp
              \<and> length (privateKey kp) = 32
              \<and> bytesToBigInt (privateKey kp)
                  = bytesToBigInt (keccak256 (keccak256 (sigBytes @ purposeBytes purpose)))
                      mod secp256k1_n
              \<and> publicKey kp
                  = mulG (bytesToBigInt (keccak256 (keccak256 (sigBytes @ purposeBytes purpose)))
                            mod secp256k1_n)))"
proof -
  define seed where "seed = bytesToBigInt (keccak256 (keccak256 (sigBytes @ purposeBytes purpose)))"
  define s where "s = seed mod secp256k1_n"
  have seed0: "0 \<le> seed" unfolding seed_def by (rule bytesToBigInt_nonneg)
  have rem: "bigintRem seed secp256k1_n = s"
    unfolding s_def using seed0 secp256k1_n_bounds(1) by (rule bigintRem_mod)
  have s0: "0 \<le> s" and sn: "s < secp256k1_n"
    unfolding s_def using secp256k1_n_bounds(1) by simp_all
  have s256: "s < 2 ^ 256" using sn secp256k1_n_bounds(2) by linarith
  show ?thesis
  proof (cases "s = 0")
    case True
    with rem have "deriveKeyPairFromSignature keccak256 mulG sigBytes purpose = Inl ZeroPrivateKey"
      by (simp add: deriveKeyPairFromSignature_def Let_def seed_def)
    with True show ?thesis by (simp add: s_def seed_def)
  next
    case False
    with s0 have pos: "0 < s" by simp
    have pk: "getPublicKey mulG (bigIntToBytes s) = Inr (mulG s)"
      using pos sn by (rule getPublicKey_bigIntToBytes)
    have res: "deriveKeyPairFromSignature keccak256 mulG sigBytes purpose
        = Inr \<lparr>privateKey = bigIntToBytes s, publicKey = mulG s\<rparr>"
      using rem False pk
      by (simp add: deriveKeyPairFromSignature_def Let_def seed_def)
    have rt: "bytesToBigInt (bigIntToBytes s) = s"
      using s0 s256 by (rule bytesToBigInt_bigIntToBytes)
    from res rt False show ?thesis
      by (simp add: s_def seed_def bigIntToBytes_length)
  qed
qed

text \<open>
  With a stand-in hash the scalar is 515 and the key pair is the one of 515; with a hash
  that answers no bytes the scalar is zero and the derivation fails.
\<close>

theorem deriveKeyPairFromSignature_scalar_witness:
  "bytesToBigInt (lengthHash (lengthHash ([1, 2, 3] @ purposeBytes View))) mod secp256k1_n = 515
   \<and> (\<exists>kp. deriveKeyPairFromSignature lengthHash scalarBytes [1, 2, 3] View = Inr kp
         \<and> bytesToBigInt (privateKey kp) = 515 \<and> publicKey kp = scalarBytes 515)
   \<and> bytesToBigInt (emptyHash (emptyHash ([1, 2, 3] @ purposeBytes Spend))) mod secp256k1_n = 0
   \<and> deriveKeyPairFromSignature emptyHash scalarBytes [1, 2, 3] Spend = Inl ZeroPrivateKey"
proof -
  have s: "bytesToBigInt (lengthHash (lengthHash ([1, 2, 3] @ purposeBytes View))) mod secp256k1_n = 515"
    by code_simp
  have z: "bytesToBigInt (emptyHash (emptyHash ([1, 2, 3] @ purposeBytes Spend))) mod secp256k1_n = 0"
    by code_simp
  from deriveKeyPairFromSignature_scalar [of lengthHash scalarBytes "[1, 2, 3]" View] s
  have "\<exists>kp. deriveKeyPairFromSignature lengthHash scalarBytes [1, 2, 3] View = Inr kp
         \<and> bytesToBigInt (privateKey kp) = 515 \<and> publicKey kp = scalarBytes 515"
    by auto
  moreover from deriveKeyPairFromSignature_scalar [of emptyHash scalarBytes "[1, 2, 3]" Spend] z
  have "deriveKeyPairFromSignature emptyHash scalarBytes [1, 2, 3] Spend = Inl ZeroPrivateKey"
    by blast
  ultimately show ?thesis using s z by blast
qed

section \<open>Exporting the public keys\<close>

text \<open>
  The claim C9 as stated fails: the object that \<open>exportPublicKeys\<close> returns has a third
  property, \<open>address\<close>, besides the two public keys.
\<close>

theorem exportPublicKeys_only_public_counterexample:
  "''address'' \<in> set (propertyNames (exportPublicKeys exampleKeys))
   \<and> property (exportPublicKeys exampleKeys) ''address'' = ''0x742d''
   \<and> set (propertyNames (exportPublicKeys exampleKeys)) \<noteq> {''viewPublicKey'', ''spendPublicKey''}"
  by code_simp

text \<open>
  C9 (amended).  For every \<open>WalletKeys\<close> value, \<open>exportPublicKeys\<close> returns an object
  with exactly the properties \<open>address\<close>, \<open>viewPublicKey\<close> and \<open>spendPublicKey\<close>: the
  account address and the hex encodings of the two public keys.  It has no
  \<open>viewPrivateKey\<close> and no \<open>spendPrivateKey\<close> property, and it does not depend on the
  private keys.
\<close>

theorem exportPublicKeys_fields:
  "propertyNames (exportPublicKeys ks) = [''address'', ''viewPublicKey'', ''spendPublicKey'']
   \<and> ''viewPrivateKey'' \<notin> set (propertyNames (exportPublicKeys ks))
   \<and> ''spendPrivateKey'' \<notin> set (propertyNames (exportPublicKeys ks))
   \<and> property (exportPublicKeys ks) ''address'' = address ks
   \<and> property (exportPublicKeys ks) ''viewPublicKey'' = bytesToHex (viewPublicKey ks)
   \<and> property (exportPublicKeys ks) ''spendPublicKey'' = bytesToHex (spendPublicKey ks)
   \<and> exportPublicKeys (ks\<lparr>viewPrivateKey := vp, spendPrivateKey := sp\<rparr>) = exportPublicKeys ks"
  by (simp add: exportPublicKeys_def propertyNames_def property_def)

section \<open>The block range of the event query\<close>

lemma actualFromBlock_latest:
  "actualFromBlock current fromBlock Latest = max fromBlock (max (current - 10000) 0)"
  by (simp add: actualFromBlock_def MAX_BLOCK_RANGE_def Let_def max_def)

text \<open>
  C10.  With \<open>toBlock = 'latest'\<close>, \<open>getAccountUpdatedEvents\<close> queries from the block
  \<open>max(fromBlock, max(currentBlock - 10000, 0))\<close>, which is at least
  \<open>currentBlock - 10000\<close> and, for a block number \<open>fromBlock \<ge> 0\<close>, is the maximum of
  \<open>fromBlock\<close> and \<open>currentBlock - 10000\<close>.  So a commitment event more than 10000
  blocks older than the current block is never returned, also when the caller's
  \<open>fromBlock\<close> (the wallet's watermark) is older than that.
\<close>

theorem getAccountUpdatedEvents_range:
  "actualFromBlock (currentBlock pc) fromBlock Latest
     = max fromBlock (max (currentBlock pc - 10000) 0)
   \<and> currentBlock pc - 10000 \<le> actualFromBlock (currentBlock pc) fromBlock Latest
   \<and> (0 \<le> fromBlock \<longrightarrow>
        actualFromBlock (currentBlock pc) fromBlock Latest = max fromBlock (currentBlock pc - 10000))
   \<and> getAccountUpdatedEvents pc fromBlock Latest
       = filter (\<lambda>l. max fromBlock (max (currentBlock pc - 10000) 0) \<le> AccountUpdatedEvent.blockNumber l)
           (contractLogs pc)
   \<and> (\<forall>l \<in> set (contractLogs pc).
        AccountUpdatedEvent.blockNumber l < currentBlock pc - 10000
        \<longrightarrow> l \<notin> set (getAccountUpdatedEvents pc fromBlock Latest))"
proof -
  have ev: "getAccountUpdatedEvents pc fromBlock Latest
       = filter (\<lambda>l. max fromBlock (max (currentBlock pc - 10000) 0) \<le> AccountUpdatedEvent.blockNumber l)
           (contractLogs pc)"
    by (simp add: getAccountUpdatedEvents_def getLogs_def actualFromBlock_latest)
  have "\<forall>l \<in> set (contractLogs pc).
        AccountUpdatedEvent.blockNumber l < currentBlock pc - 10000
        \<longrightarrow> l \<notin> set (getAccountUpdatedEvents pc fromBlock Latest)"
    unfolding ev by auto
  with ev show ?thesis
    by (simp add: actualFromBlock_latest) linarith
qed

text \<open>
  At block 20000 a wallet synced up to block 100 gets the logs of blocks 15000 and 15500
  and never the one of block 5000.
\<close>

theorem getAccountUpdatedEvents_range_witness:
  "actualFromBlock (currentBlock exampleChain) 100 Latest = 10000
   \<and> (\<exists>l \<in> set (contractLogs exampleChain).
         100 \<le> AccountUpdatedEvent.blockNumber l
         \<and> AccountUpdatedEvent.blockNumber l < currentBlock exampleChain - 10000
         \<and> l \<notin> set (getAccountUpdatedEvents exampleChain 100 Latest))
   \<and> map AccountUpdatedEvent.blockNumber (getAccountUpdatedEvents exampleChain 100 Latest) = [15000, 15500]"
proof -
  note rg = getAccountUpdatedEvents_range [of exampleChain 100]
  have cb: "currentBlock exampleChain = 20000" by code_simp
  have h: "(0::int) \<le> 100" by simp
  from rg h cb have start: "actualFromBlock (currentBlock exampleChain) 100 Latest = 10000" by simp
  define old where "old = contractLogs exampleChain ! 0"
  have mem: "old \<in> set (contractLogs exampleChain)" unfolding old_def by code_simp
  have blk: "100 \<le> AccountUpdatedEvent.blockNumber old
     \<and> AccountUpdatedEvent.blockNumber old < currentBlock exampleChain - 10000"
    unfolding old_def by code_simp
  from rg mem blk have "old \<notin> set (getAccountUpdatedEvents exampleChain 100 Latest)" by blast
  with mem blk have lost: "\<exists>l \<in> set (contractLogs exampleChain).
         100 \<le> AccountUpdatedEvent.blockNumber l
         \<and> AccountUpdatedEvent.blockNumber l < currentBlock exampleChain - 10000
         \<and> l \<notin> set (getAccountUpdatedEvents exampleChain 100 Latest)" by blast
  have got: "map AccountUpdatedEvent.blockNumber (getAccountUpdatedEvents exampleChain 100 Latest) = [15000, 15500]"
    by code_simp
  from start lost got show ?thesis by blast
qed

end
